theory Spec2Isabelle
  imports Complex_Main "HOL-Library.Sublist" "HOL-Library.AList"
begin

section \<open>Strings and character classes\<close>

text \<open>
  The source is Python 3 and its strings are sequences of code points. A string is modelled
  as a \<open>char list\<close> whose characters are the code points below 256; the character
  classes below are the ones of Python's \<open>re\<close> module for \<open>str\<close> patterns on that
  range: \<open>\d\<close> is 0-9, \<open>\w\<close> is every alphanumeric character and the underscore,
  \<open>\s\<close> is the white space.
\<close>

definition is_digit :: "char \<Rightarrow> bool" where
  "is_digit c \<longleftrightarrow> 48 \<le> (of_char c :: nat) \<and> (of_char c :: nat) \<le> 57"

definition is_word :: "char \<Rightarrow> bool" where
  "is_word c \<longleftrightarrow> (let n = (of_char c :: nat) in
     (48 \<le> n \<and> n \<le> 57) \<or> (65 \<le> n \<and> n \<le> 90) \<or> n = 95 \<or> (97 \<le> n \<and> n \<le> 122) \<or>
     n = 170 \<or> n = 178 \<or> n = 179 \<or> n = 181 \<or> n = 185 \<or> n = 186 \<or>
     (188 \<le> n \<and> n \<le> 190) \<or> (192 \<le> n \<and> n \<le> 214) \<or> (216 \<le> n \<and> n \<le> 246) \<or> 248 \<le> n)"

definition is_space :: "char \<Rightarrow> bool" where
  "is_space c \<longleftrightarrow> (let n = (of_char c :: nat) in
     (9 \<le> n \<and> n \<le> 13) \<or> (28 \<le> n \<and> n \<le> 32) \<or> n = 133 \<or> n = 160)"

section \<open>Regular expressions: a backtracking matcher\<close>

text \<open>
  The three patterns of the source are sequences of single characters of a class, of
  greedy repetitions \<open>+\<close> of a class, and of capturing groups. A pattern is the list of
  its tokens, in the order of the pattern's text. \<open>bt\<close> matches a pattern at the start of
  a string the way \<open>re\<close> does: a repetition first takes the longest run and gives
  characters back one at a time (\<open>greedy\<close>) until the rest of the pattern matches. The
  result is the list of the captured groups and the text after the match.
\<close>

datatype tok = One "char \<Rightarrow> bool" | Many1 "char \<Rightarrow> bool" | Open | Close

fun note_group :: "string option \<Rightarrow> string \<Rightarrow> string option" where
  "note_group None cs = None"
| "note_group (Some g) cs = Some (g @ cs)"

fun bt :: "tok list \<Rightarrow> string list \<Rightarrow> string option \<Rightarrow> string \<Rightarrow> (string list \<times> string) option"
  and greedy :: "(char \<Rightarrow> bool) \<Rightarrow> tok list \<Rightarrow> string list \<Rightarrow> string option \<Rightarrow> string \<Rightarrow> nat
     \<Rightarrow> (string list \<times> string) option"
where
  "bt [] gs cur s = Some (gs, s)"
| "bt (Open # p) gs cur s = bt p gs (Some []) s"
| "bt (Close # p) gs cur s = bt p (gs @ [case cur of Some g \<Rightarrow> g | None \<Rightarrow> []]) None s"
| "bt (One c # p) gs cur s =
     (case s of [] \<Rightarrow> None | x # xs \<Rightarrow> if c x then bt p gs (note_group cur [x]) xs else None)"
| "bt (Many1 c # p) gs cur s = greedy c p gs cur s (length (takeWhile c s))"
| "greedy c p gs cur s 0 = None"
| "greedy c p gs cur s (Suc n) =
     (case bt p gs (note_group cur (take (Suc n) s)) (drop (Suc n) s) of
        Some r \<Rightarrow> Some r
      | None \<Rightarrow> greedy c p gs cur s n)"

text \<open>\<open>re.search\<close>: the match at the leftmost position that has one.\<close>

fun re_search :: "tok list \<Rightarrow> string \<Rightarrow> string list option" where
  "re_search p [] = map_option fst (bt p [] None [])"
| "re_search p (c # cs) =
     (case bt p [] None (c # cs) of Some (gs, rest) \<Rightarrow> Some gs | None \<Rightarrow> re_search p cs)"

text \<open>
  \<open>re.sub\<close>: every match, leftmost first and not overlapping, is replaced by the
  template, in which \<open>Ref i\<close> stands for the text of group \<open>i\<close> (\<open>\1\<close> is
  \<open>Ref 1\<close>). The patterns of the source match at least one character; the branch for
  an empty match is there to make the function total.
\<close>

datatype repl = Lit char | Ref nat

fun expand :: "repl list \<Rightarrow> string list \<Rightarrow> string" where
  "expand [] gs = []"
| "expand (Lit c # r) gs = c # expand r gs"
| "expand (Ref i # r) gs = (if 0 < i \<and> i \<le> length gs then gs ! (i - 1) else []) @ expand r gs"

function re_sub :: "tok list \<Rightarrow> repl list \<Rightarrow> string \<Rightarrow> string" where
  "re_sub p r [] = (case bt p [] None [] of Some (gs, rest) \<Rightarrow> expand r gs | None \<Rightarrow> [])"
| "re_sub p r (c # cs) =
     (case bt p [] None (c # cs) of
        None \<Rightarrow> c # re_sub p r cs
      | Some (gs, rest) \<Rightarrow>
          if length rest \<le> length cs then expand r gs @ re_sub p r rest
          else expand r gs @ c # re_sub p r cs)"
  by pat_completeness auto
termination
  by (relation "measure (\<lambda>(p, r, s). length s)") auto

text \<open>\<open>str.replace\<close> of a literal text, for a pattern that is not empty.\<close>

function literal_replace :: "string \<Rightarrow> string \<Rightarrow> string \<Rightarrow> string" where
  "literal_replace pat r [] = []"
| "literal_replace pat r (c # cs) =
     (if pat \<noteq> [] \<and> prefix pat (c # cs)
      then r @ literal_replace pat r (drop (length pat) (c # cs))
      else c # literal_replace pat r cs)"
  by pat_completeness auto
termination
  by (relation "measure (\<lambda>(pat, r, s). length s)") auto

section \<open>The description parser\<close>

text \<open>
  \<open>extract_option_details\<close> searches the description for the pattern
  \<^verbatim>\<open>(\w+)\s+(\d{2}/\d{2}/\d{2})\s+([PC])\s+(\d+)\<close> and returns the four groups, or
  four times \<open>None\<close>, modelled as \<open>None\<close>.
\<close>

definition strike_pattern :: "tok list" where
  "strike_pattern = [Open, Many1 is_digit, Close]"

definition flag_pattern :: "tok list" where
  "flag_pattern =
     [Open, One (\<lambda>c. c = CHR ''P'' \<or> c = CHR ''C''), Close, Many1 is_space] @ strike_pattern"

definition date_pattern :: "tok list" where
  "date_pattern =
     [Open, One is_digit, One is_digit, One (\<lambda>c. c = CHR ''/''),
            One is_digit, One is_digit, One (\<lambda>c. c = CHR ''/''),
            One is_digit, One is_digit, Close, Many1 is_space] @ flag_pattern"

definition option_pattern :: "tok list" where
  "option_pattern = [Open, Many1 is_word, Close, Many1 is_space] @ date_pattern"

definition extract_option_details :: "string \<Rightarrow> (string \<times> string \<times> string \<times> string) option" where
  "extract_option_details description =
     (case re_search option_pattern description of
        Some [ticker, expiration, option_type, strike] \<Rightarrow>
          Some (ticker, expiration, option_type, strike)
      | _ \<Rightarrow> None)"

text \<open>
  The shape \<^verbatim>\<open>TICKER MM/DD/YY [P|C] NNN\<close> of a description: a ticker of word
  characters, a date of two digits, a slash, two digits, a slash and two digits, a flag,
  a strike of digits, and white space between them.
\<close>

definition word_token :: "string \<Rightarrow> bool" where
  "word_token t \<longleftrightarrow> t \<noteq> [] \<and> (\<forall>c\<in>set t. is_word c)"

definition separator :: "string \<Rightarrow> bool" where
  "separator w \<longleftrightarrow> w \<noteq> [] \<and> (\<forall>c\<in>set w. is_space c)"

definition digits_token :: "string \<Rightarrow> bool" where
  "digits_token k \<longleftrightarrow> k \<noteq> [] \<and> (\<forall>c\<in>set k. is_digit c)"

definition date_token :: "string \<Rightarrow> bool" where
  "date_token d \<longleftrightarrow>
     length d = 8 \<and> is_digit (d ! 0) \<and> is_digit (d ! 1) \<and> d ! 2 = CHR ''/'' \<and>
     is_digit (d ! 3) \<and> is_digit (d ! 4) \<and> d ! 5 = CHR ''/'' \<and>
     is_digit (d ! 6) \<and> is_digit (d ! 7)"

definition flag_char :: "char \<Rightarrow> bool" where
  "flag_char f \<longleftrightarrow> f = CHR ''P'' \<or> f = CHR ''C''"

text \<open>
  What is left of the pattern after the ticker matches a text: white space and then the
  date, the flag and the strike.
\<close>

definition tail_ok :: "string \<Rightarrow> bool" where
  "tail_ok rest \<longleftrightarrow>
     takeWhile is_space rest \<noteq> [] \<and> bt date_pattern [] None (dropWhile is_space rest) \<noteq> None"

section \<open>Numbers, missing values and the pandas functions the source calls\<close>

text \<open>
  The numbers of the table are the \<open>int64\<close> and \<open>float64\<close> values of numpy and, in a
  row that \<open>iterrows\<close> hands out, the numbers of Python: products of \<open>int64\<close> wrap
  around, \<open>float64\<close> rounds and has infinities. Neither this arithmetic nor the reader
  of pandas is in the repository. They are parameters of the model, and every theorem
  that speaks of a \<open>pandas\<close> holds for all of them:

  \<^item> \<open>'f\<close> is the type of the numbers other than NaN, and a number that may be NaN is an
    \<open>'f option\<close>, \<open>None\<close> being NaN;
  \<^item> \<open>to_numeric column s\<close> is what \<open>pd.to_numeric(column, errors='coerce')\<close> gives
    a cell with the text \<open>s\<close>; it depends on the column, whose other cells decide
    between \<open>int64\<close> and \<open>float64\<close>;
  \<^item> \<open>numeric_column column\<close> tells that the column read from the file holds no text
    cell and so has a numeric dtype, on which the accessor \<open>.str\<close> raises
    \<open>AttributeError\<close>;
  \<^item> \<open>str_replace_regex\<close> is the default of the \<open>regex\<close> argument of
    \<open>Series.str.replace\<close>, which the source does not pass (\<open>True\<close> before pandas
    2.0, \<open>False\<close> from 2.0 on);
  \<^item> \<open>num_mul\<close>, \<open>num_sub\<close> and \<open>num_div\<close> are \<open>*\<close>, \<open>-\<close> and \<open>/\<close> on two
    numbers (they may give NaN, as \<open>inf - inf\<close> does), \<open>num_sum\<close> is the sum of a
    column without NaN, \<open>num_ne_zero x\<close> is \<open>x != 0\<close>, \<open>int_0\<close> and \<open>int_100\<close>
    are the literals \<open>0\<close> and \<open>100\<close> of the source, and \<open>row_value x\<close> is the
    number that a row handed out by \<open>iterrows\<close> holds for the cell \<open>x\<close>.
\<close>

record 'f pandas =
  to_numeric :: "string option list \<Rightarrow> string \<Rightarrow> 'f option"
  numeric_column :: "string option list \<Rightarrow> bool"
  str_replace_regex :: bool
  num_mul :: "'f \<Rightarrow> 'f \<Rightarrow> 'f option"
  num_sub :: "'f \<Rightarrow> 'f \<Rightarrow> 'f option"
  num_div :: "'f \<Rightarrow> 'f \<Rightarrow> 'f option"
  num_sum :: "'f list \<Rightarrow> 'f option"
  num_ne_zero :: "'f \<Rightarrow> bool"
  int_0 :: 'f
  int_100 :: 'f
  row_value :: "'f \<Rightarrow> 'f"

text \<open>An operation gives NaN as soon as one of its operands is NaN, and \<open>NaN != 0\<close> holds.\<close>

fun nan_mul :: "'f pandas \<Rightarrow> 'f option \<Rightarrow> 'f option \<Rightarrow> 'f option" where
  "nan_mul pd (Some x) (Some y) = num_mul pd x y"
| "nan_mul pd _ _ = None"

fun nan_sub :: "'f pandas \<Rightarrow> 'f option \<Rightarrow> 'f option \<Rightarrow> 'f option" where
  "nan_sub pd (Some x) (Some y) = num_sub pd x y"
| "nan_sub pd _ _ = None"

fun nan_div :: "'f pandas \<Rightarrow> 'f option \<Rightarrow> 'f option \<Rightarrow> 'f option" where
  "nan_div pd (Some x) (Some y) = num_div pd x y"
| "nan_div pd _ _ = None"

definition nan_ne_zero :: "'f pandas \<Rightarrow> 'f option \<Rightarrow> bool" where
  "nan_ne_zero pd v = (case v of None \<Rightarrow> True | Some x \<Rightarrow> num_ne_zero pd x)"

text \<open>\<open>Series.dropna()\<close>: the cells that are not missing, in their order.\<close>

definition dropna :: "'a option list \<Rightarrow> 'a list" where
  "dropna cells = concat (map (\<lambda>c. case c of None \<Rightarrow> [] | Some x \<Rightarrow> [x]) cells)"

text \<open>
  \<open>Series.sum()\<close>, called with its defaults \<open>skipna=True, min_count=0\<close>: the sum of
  the values that are not NaN.
\<close>

definition series_sum :: "'f pandas \<Rightarrow> 'f option list \<Rightarrow> 'f option" where
  "series_sum pd vs = num_sum pd (dropna vs)"

text \<open>The expression \<^verbatim>\<open>(profit_loss / total_bought) * 100 if total_bought != 0 else 0\<close>.\<close>

definition return_percent :: "'f pandas \<Rightarrow> 'f option \<Rightarrow> 'f option \<Rightarrow> 'f option" where
  "return_percent pd profit_loss total_bought =
     (if nan_ne_zero pd total_bought
      then nan_mul pd (nan_div pd profit_loss total_bought) (Some (int_100 pd))
      else Some (int_0 pd))"

section \<open>The transaction table and its cleaning\<close>

text \<open>
  A row of the data frame that \<open>read_csv\<close> builds from the uploaded file, with the
  columns the upload handler requires. A missing cell is \<open>None\<close>; a cell of a text
  column holds its text, and a cell of a column that \<open>read_csv\<close> read as numbers is
  written as the text it was read from. The numeric columns hold text
  (\<open>string option\<close>) before the cleaning and numbers (\<open>'f option\<close>) after it. The
  Instrument cells are kept as their text, which is the key of a stock position in the
  report.
\<close>

record 'n row =
  settle_date :: "string option"
  instrument :: "string option"
  trans_code :: "string option"
  quantity :: 'n
  price :: 'n
  amount :: 'n
  description :: "string option"

text \<open>The pattern \<^verbatim>\<open>[\$,]\<close> and the pattern \<^verbatim>\<open>\(([^)]+)\)\<close> with its template \<^verbatim>\<open>-\1\<close>.\<close>

definition currency_pattern :: "tok list" where
  "currency_pattern = [One (\<lambda>c. c = CHR ''$'' \<or> c = CHR '','')]"

definition paren_pattern :: "tok list" where
  "paren_pattern =
     [One (\<lambda>c. c = CHR ''(''), Open, Many1 (\<lambda>c. c \<noteq> CHR '')''), Close, One (\<lambda>c. c = CHR '')'')]"

definition paren_template :: "repl list" where
  "paren_template = [Lit CHR ''-'', Ref 1]"

definition paren_pattern_text :: string where
  "paren_pattern_text =
     [CHR 0x5C, CHR ''('', CHR ''('', CHR ''['', CHR ''^'', CHR '')'', CHR '']'', CHR ''+'', CHR '')'',
      CHR 0x5C, CHR '')'']"

definition paren_template_text :: string where
  "paren_template_text = [CHR ''-'', CHR 0x5C, CHR ''1'']"

text \<open>A missing cell stays NaN; a text is read within its column.\<close>

definition numeric_cell :: "'f pandas \<Rightarrow> string option list \<Rightarrow> string option \<Rightarrow> 'f option" where
  "numeric_cell pd column cell = (case cell of None \<Rightarrow> None | Some s \<Rightarrow> to_numeric pd column s)"

definition price_text :: "string \<Rightarrow> string" where
  "price_text s = re_sub currency_pattern [] s"

definition amount_text :: "'f pandas \<Rightarrow> string \<Rightarrow> string" where
  "amount_text pd s =
     (let s1 = re_sub currency_pattern [] s in
      if str_replace_regex pd then re_sub paren_pattern paren_template s1
      else literal_replace paren_pattern_text paren_template_text s1)"

definition clean_price :: "'f pandas \<Rightarrow> string option list \<Rightarrow> string option \<Rightarrow> 'f option" where
  "clean_price pd column cell =
     numeric_cell pd (map (map_option price_text) column) (map_option price_text cell)"

definition clean_quantity :: "'f pandas \<Rightarrow> string option list \<Rightarrow> string option \<Rightarrow> 'f option" where
  "clean_quantity pd column cell = numeric_cell pd column cell"

definition clean_amount :: "'f pandas \<Rightarrow> string option list \<Rightarrow> string option \<Rightarrow> 'f option" where
  "clean_amount pd column cell =
     numeric_cell pd (map (map_option (amount_text pd)) column) (map_option (amount_text pd) cell)"

text \<open>
  A row after the cleaning of the table \<open>data\<close> it belongs to. A cell of a Description
  column of numeric dtype is a number and not a string: \<open>re.search\<close> raises
  \<open>TypeError\<close> on it as it does on a missing cell, and it is \<open>None\<close> here.
\<close>

definition clean_row :: "'f pandas \<Rightarrow> string option row list \<Rightarrow> string option row \<Rightarrow> 'f option row" where
  "clean_row pd data r =
     \<lparr>settle_date = settle_date r, instrument = instrument r, trans_code = trans_code r,
      quantity = clean_quantity pd (map quantity data) (quantity r),
      price = clean_price pd (map price data) (price r),
      amount = clean_amount pd (map amount data) (amount r),
      description = (if numeric_column pd (map description data) then None else description r)\<rparr>"

datatype error = TypeError | AttributeError

text \<open>
  The cleaning of the table and the five selections by transaction code.
  \<open>data['Amount'].str.replace\<close> and \<open>data['Trans Code'].str.contains\<close> raise
  \<open>AttributeError\<close> on a column of numeric dtype.
\<close>

definition clean :: "'f pandas \<Rightarrow> string option row list \<Rightarrow> error + 'f option row list" where
  "clean pd data =
     (if numeric_column pd (map amount data) then Inl AttributeError
      else if numeric_column pd (map trans_code data) then Inl AttributeError
      else Inr (map (clean_row pd data) data))"

section \<open>The reconciliation\<close>

text \<open>
  \<open>str.contains\<close> with a pattern that has no special character of regular expressions
  is the test for a substring; a missing cell does not match (\<open>na=False\<close>, and in the
  mask of the option matching a NaN counts as \<open>False\<close> under \<open>&\<close>).
\<close>

definition str_contains :: "string \<Rightarrow> string option \<Rightarrow> bool" where
  "str_contains pat cell = (case cell of None \<Rightarrow> False | Some s \<Rightarrow> sublist pat s)"

text \<open>\<open>Series.dropna().unique()\<close>: the values that are not missing, each once, in the order of their first row.\<close>

fun unique_from :: "'a list \<Rightarrow> 'a list \<Rightarrow> 'a list" where
  "unique_from seen [] = []"
| "unique_from seen (x # xs) =
     (if x \<in> set seen then unique_from seen xs else x # unique_from (x # seen) xs)"

definition dropna_unique :: "'a option list \<Rightarrow> 'a list" where
  "dropna_unique cells = unique_from [] (dropna cells)"

record 'f performance_record =
  total_quantity :: "'f option"
  total_profit_loss :: "'f option"
  return_pct :: "'f option"

type_synonym 'f report = "(string \<times> 'f performance_record) list \<times> string list"

definition products :: "'f pandas \<Rightarrow> 'f option row list \<Rightarrow> 'f option list" where
  "products pd rs = map (\<lambda>r. nan_mul pd (quantity r) (price r)) rs"

definition stock_step ::
  "'f pandas \<Rightarrow> 'f option row list \<Rightarrow> 'f option row list \<Rightarrow> 'f report \<Rightarrow> string \<Rightarrow> 'f report" where
  "stock_step pd stock_buy_transactions stock_sell_transactions st ticker =
     (let (performance, unresolved) = st;
          buys = filter (\<lambda>r. instrument r = Some ticker) stock_buy_transactions;
          sells = filter (\<lambda>r. instrument r = Some ticker) stock_sell_transactions
      in if buys \<noteq> [] \<and> sells \<noteq> [] then
           let total_bought = series_sum pd (products pd buys);
               total_sold = series_sum pd (products pd sells);
               profit_loss = nan_sub pd total_sold total_bought;
               total_quantity = series_sum pd (map quantity buys)
           in (AList.update ticker
                 \<lparr>total_quantity = total_quantity,
                  total_profit_loss = profit_loss,
                  return_pct = return_percent pd profit_loss total_bought\<rparr>
                 performance, unresolved)
         else (performance, unresolved @ [ticker]))"

definition option_key :: "string \<Rightarrow> string \<Rightarrow> string \<Rightarrow> string \<Rightarrow> string" where
  "option_key ticker expiration option_type strike =
     ticker @ '' '' @ expiration @ '' '' @ option_type @ '' '' @ strike"

definition matching_sell :: "'n row list \<Rightarrow> string \<Rightarrow> string \<Rightarrow> 'n row list" where
  "matching_sell option_sell_transactions ticker expiration =
     filter (\<lambda>r. str_contains expiration (description r) \<and> instrument r = Some ticker)
       option_sell_transactions"

text \<open>
  One pass of the loop over the BTO rows. \<open>re.search\<close> raises \<open>TypeError\<close> on a
  description that is not a string. The quantity and the price of the row are the
  numbers that the row of \<open>iterrows\<close> holds.
\<close>

definition option_step ::
  "'f pandas \<Rightarrow> 'f option row list \<Rightarrow> 'f report \<Rightarrow> 'f option row \<Rightarrow> error + 'f report" where
  "option_step pd option_sell_transactions st r =
     (let (performance, unresolved) = st in
      case description r of
        None \<Rightarrow> Inl TypeError
      | Some d \<Rightarrow>
          (case extract_option_details d of
             None \<Rightarrow> Inr (performance, unresolved)
           | Some (ticker, expiration, option_type, strike) \<Rightarrow>
               if ticker \<noteq> [] then
                 let matching = matching_sell option_sell_transactions ticker expiration in
                 if matching \<noteq> [] then
                   let row_quantity = map_option (row_value pd) (quantity r);
                       row_price = map_option (row_value pd) (price r);
                       total_bought = nan_mul pd row_quantity row_price;
                       total_sold = series_sum pd (products pd matching);
                       profit_loss = nan_sub pd total_sold total_bought;
                       total_quantity = row_quantity;
                       key = option_key ticker expiration option_type strike
                   in Inr (AList.update key
                             \<lparr>total_quantity = total_quantity,
                              total_profit_loss = profit_loss,
                              return_pct = return_percent pd profit_loss total_bought\<rparr>
                             performance, unresolved)
                 else Inr (performance,
                           unresolved @ [option_key ticker expiration option_type strike])
               else Inr (performance, unresolved)))"

fun option_loop ::
  "'f pandas \<Rightarrow> 'f option row list \<Rightarrow> 'f option row list \<Rightarrow> 'f report \<Rightarrow> error + 'f report" where
  "option_loop pd option_sell_transactions [] st = Inr st"
| "option_loop pd option_sell_transactions (r # rs) st =
     (case option_step pd option_sell_transactions st r of
        Inl e \<Rightarrow> Inl e
      | Inr st' \<Rightarrow> option_loop pd option_sell_transactions rs st')"

definition reconcile :: "'f pandas \<Rightarrow> 'f option row list \<Rightarrow> error + 'f report" where
  "reconcile pd data =
     (let stock_buy_transactions = filter (\<lambda>r. str_contains ''Buy'' (trans_code r)) data;
          stock_sell_transactions = filter (\<lambda>r. str_contains ''Sell'' (trans_code r)) data;
          option_buy_transactions = filter (\<lambda>r. str_contains ''BTO'' (trans_code r)) data;
          option_sell_transactions = filter (\<lambda>r. str_contains ''STO'' (trans_code r)) data;
          ach_transactions = filter (\<lambda>r. str_contains ''ACH'' (trans_code r)) data;
          stocks = foldl (stock_step pd stock_buy_transactions stock_sell_transactions) ([], [])
                     (dropna_unique (map instrument stock_buy_transactions))
      in option_loop pd option_sell_transactions option_buy_transactions stocks)"

definition analyze_performance :: "'f pandas \<Rightarrow> string option row list \<Rightarrow> error + 'f report" where
  "analyze_performance pd data =
     (case clean pd data of Inl e \<Rightarrow> Inl e | Inr table \<Rightarrow> reconcile pd table)"

section \<open>The quantities the claims speak of\<close>

text \<open>The rows with a transaction code and an instrument, and the cleaned table.\<close>

definition rows_of :: "string \<Rightarrow> string \<Rightarrow> 'n row list \<Rightarrow> 'n row list" where
  "rows_of code ticker data =
     filter (\<lambda>r. str_contains code (trans_code r) \<and> instrument r = Some ticker) data"

definition cleaned :: "'f pandas \<Rightarrow> string option row list \<Rightarrow> 'f option row list" where
  "cleaned pd data = map (clean_row pd data) data"

text \<open>The record that the stock loop writes for the Buy rows and the Sell rows of a ticker.\<close>

definition stock_record :: "'f pandas \<Rightarrow> 'f option row list \<Rightarrow> 'f option row list \<Rightarrow> 'f performance_record" where
  "stock_record pd buys sells =
     \<lparr>total_quantity = series_sum pd (map quantity buys),
      total_profit_loss = nan_sub pd (series_sum pd (products pd sells)) (series_sum pd (products pd buys)),
      return_pct = return_percent pd
                     (nan_sub pd (series_sum pd (products pd sells)) (series_sum pd (products pd buys)))
                     (series_sum pd (products pd buys))\<rparr>"

text \<open>The record that the option loop writes for a BTO row and the STO rows it matches.\<close>

definition option_record :: "'f pandas \<Rightarrow> 'f option row list \<Rightarrow> 'f option row \<Rightarrow> 'f performance_record" where
  "option_record pd matching r =
     \<lparr>total_quantity = map_option (row_value pd) (quantity r),
      total_profit_loss =
        nan_sub pd (series_sum pd (products pd matching))
          (nan_mul pd (map_option (row_value pd) (quantity r)) (map_option (row_value pd) (price r))),
      return_pct =
        return_percent pd
          (nan_sub pd (series_sum pd (products pd matching))
             (nan_mul pd (map_option (row_value pd) (quantity r)) (map_option (row_value pd) (price r))))
          (nan_mul pd (map_option (row_value pd) (quantity r)) (map_option (row_value pd) (price r)))\<rparr>"

text \<open>What one BTO row does to the report: it raises, is skipped, writes a record or adds an unresolved key.\<close>

datatype 'f outcome = Raise | Skip | Record string "'f performance_record" | Unresolved string

definition option_outcome :: "'f pandas \<Rightarrow> 'f option row list \<Rightarrow> 'f option row \<Rightarrow> 'f outcome" where
  "option_outcome pd sto r =
     (case description r of
        None \<Rightarrow> Raise
      | Some d \<Rightarrow>
          (case extract_option_details d of
             None \<Rightarrow> Skip
           | Some (t, e, ty, k) \<Rightarrow>
               if matching_sell sto t e \<noteq> [] then
                 Record (option_key t e ty k) (option_record pd (matching_sell sto t e) r)
               else Unresolved (option_key t e ty k)))"


text \<open>
  The tickers of the stock loop, the composite keys that the descriptions of the BTO
  rows parse to, and those of them whose BTO row has a matching STO row.
\<close>

definition buy_tickers :: "'n row list \<Rightarrow> string list" where
  "buy_tickers data =
     dropna_unique (map instrument (filter (\<lambda>r. str_contains ''Buy'' (trans_code r)) data))"

definition bto_keys :: "'n row list \<Rightarrow> string list" where
  "bto_keys data =
     concat (map (\<lambda>r. case description r of
                         None \<Rightarrow> []
                       | Some d \<Rightarrow>
                           (case extract_option_details d of
                              None \<Rightarrow> []
                            | Some (t, e, ty, k) \<Rightarrow> [option_key t e ty k]))
                 (filter (\<lambda>r. str_contains ''BTO'' (trans_code r)) data))"

definition matched_bto_keys :: "'n row list \<Rightarrow> string list" where
  "matched_bto_keys data =
     concat (map (\<lambda>r. case description r of
                         None \<Rightarrow> []
                       | Some d \<Rightarrow>
                           (case extract_option_details d of
                              None \<Rightarrow> []
                            | Some (t, e, ty, k) \<Rightarrow>
                                if matching_sell (filter (\<lambda>r. str_contains ''STO'' (trans_code r)) data) t e \<noteq> []
                                then [option_key t e ty k] else []))
                 (filter (\<lambda>r. str_contains ''BTO'' (trans_code r)) data))"

section \<open>An instance of the parameters for the examples\<close>

text \<open>
  The examples are run with one instance of the parameters, \<open>exact\<close>: the arithmetic
  of the rational numbers, without rounding, overflow or infinities, and a reader of
  plain decimal text (an optional sign, digits, an optional point and digits), for which
  a column is numeric when it has a cell and each of its cells is missing or plain
  decimal text. It is an instance for the examples and not a model of pandas: no theorem
  about every \<open>pandas\<close> rests on it. The example tables are chosen so that pandas
  computes the same numbers on them.
\<close>

definition digits_val :: "string \<Rightarrow> nat" where
  "digits_val ds = foldl (\<lambda>n c. 10 * n + (of_char c - 48)) 0 ds"

definition unsigned_decimal :: "string \<Rightarrow> rat option" where
  "unsigned_decimal s =
     (let i = takeWhile is_digit s; r = dropWhile is_digit s in
      case r of
        [] \<Rightarrow> if i = [] then None else Some (of_nat (digits_val i))
      | c # f \<Rightarrow>
          if c = CHR ''.'' \<and> list_all is_digit f \<and> (i \<noteq> [] \<or> f \<noteq> [])
          then Some (of_nat (digits_val (i @ f)) / 10 ^ length f) else None)"

definition plain_decimal :: "string \<Rightarrow> rat option" where
  "plain_decimal s =
     (case s of
        [] \<Rightarrow> None
      | c # r \<Rightarrow>
          if c = CHR ''-'' then map_option uminus (unsigned_decimal r)
          else if c = CHR ''+'' then unsigned_decimal r
          else unsigned_decimal s)"

definition plain_column :: "string option list \<Rightarrow> bool" where
  "plain_column column \<longleftrightarrow>
     column \<noteq> [] \<and> list_all (\<lambda>c. case c of None \<Rightarrow> True | Some s \<Rightarrow> plain_decimal s \<noteq> None) column"

definition exact :: "bool \<Rightarrow> rat pandas" where
  "exact regex =
     \<lparr>to_numeric = (\<lambda>column s. plain_decimal s),
      numeric_column = plain_column,
      str_replace_regex = regex,
      num_mul = (\<lambda>x y. Some (x * y)),
      num_sub = (\<lambda>x y. Some (x - y)),
      num_div = (\<lambda>x y. if y = 0 then None else Some (x / y)),
      num_sum = (\<lambda>xs. Some (sum_list xs)),
      num_ne_zero = (\<lambda>x. x \<noteq> 0),
      int_0 = 0,
      int_100 = 100,
      row_value = (\<lambda>x. x)\<rparr>"

text \<open>A row with an instrument, a transaction code, a quantity, a price, an amount and a description.\<close>

definition trade ::
  "string \<Rightarrow> string \<Rightarrow> string \<Rightarrow> string \<Rightarrow> string \<Rightarrow> string \<Rightarrow> string option row" where
  "trade inst code qty prc amt descr =
     \<lparr>settle_date = None, instrument = Some inst, trans_code = Some code,
      quantity = Some qty, price = Some prc, amount = Some amt, description = Some descr\<rparr>"

section \<open>Properties of the matcher and of the parser\<close>

lemma word_not_space: "is_word c \<Longrightarrow> \<not> is_space c"
  by (auto simp: is_word_def is_space_def Let_def)

lemma digit_word: "is_digit c \<Longrightarrow> is_word c"
  by (auto simp: is_word_def is_digit_def Let_def)

lemma digit_not_space: "is_digit c \<Longrightarrow> \<not> is_space c"
  using digit_word word_not_space by blast

lemma greedy_collapse:
  assumes "\<And>k. 0 < k \<Longrightarrow> k < n \<Longrightarrow> bt p gs (note_group cur (take k s)) (drop k s) = None"
  shows "greedy c p gs cur s n =
           (if n = 0 then None else bt p gs (note_group cur (take n s)) (drop n s))"
  using assms
proof (induction n)
  case 0
  show ?case by simp
next
  case (Suc n)
  have ih: "greedy c p gs cur s n =
              (if n = 0 then None else bt p gs (note_group cur (take n s)) (drop n s))"
    using Suc.IH Suc.prems by simp
  show ?case
  proof (cases "bt p gs (note_group cur (take (Suc n) s)) (drop (Suc n) s)")
    case (Some r)
    then show ?thesis by simp
  next
    case None
    have "greedy c p gs cur s n = None"
    proof (cases "n = 0")
      case True
      then show ?thesis by simp
    next
      case False
      then show ?thesis using ih Suc.prems[of n] by simp
    qed
    then show ?thesis using None by simp
  qed
qed

lemma drop_in_run:
  assumes "k < length (takeWhile c s)"
  shows "\<exists>x xs. drop k s = x # xs \<and> c x"
proof -
  have len: "k < length s"
    using assms length_takeWhile_le[of c s] by (meson less_le_trans)
  have "drop k s = s ! k # drop (Suc k) s"
    using len by (simp add: Cons_nth_drop_Suc)
  moreover have "c (s ! k)"
    using assms by (metis nth_mem set_takeWhileD takeWhile_nth)
  ultimately show ?thesis by blast
qed

lemma bt_Many1_reject:
  assumes rej: "\<And>x xs cur'. c x \<Longrightarrow> bt p gs cur' (x # xs) = None"
  shows "bt (Many1 c # p) gs cur s =
           (if takeWhile c s = [] then None
            else bt p gs (note_group cur (takeWhile c s)) (dropWhile c s))"
proof -
  let ?n = "length (takeWhile c s)"
  have "greedy c p gs cur s ?n =
          (if ?n = 0 then None else bt p gs (note_group cur (take ?n s)) (drop ?n s))"
  proof (rule greedy_collapse)
    fix k assume "0 < k" "k < ?n"
    then obtain x xs where "drop k s = x # xs" "c x"
      using drop_in_run by blast
    then show "bt p gs (note_group cur (take k s)) (drop k s) = None"
      using rej by simp
  qed
  then show ?thesis
    by (simp add: takeWhile_eq_take[symmetric] dropWhile_eq_drop[symmetric])
qed

lemma bt_success_indep_aux:
  "\<forall>gs' cur'. (bt p gs cur s = None) = (bt p gs' cur' s = None)"
  "\<forall>gs' cur'. (greedy c p gs cur s n = None) = (greedy c p gs' cur' s n = None)"
proof (induction p gs cur s and c p gs cur s n rule: bt_greedy.induct)
  case (1 gs cur s)
  show ?case by simp
next
  case (2 p gs cur s)
  show ?case
  proof (intro allI)
    fix gs' cur'
    have "(bt p gs (Some []) s = None) = (bt p gs' (Some []) s = None)"
      using 2 by blast
    then show "(bt (Open # p) gs cur s = None) = (bt (Open # p) gs' cur' s = None)"
      by simp
  qed
next
  case (3 p gs cur s)
  show ?case
  proof (intro allI)
    fix gs' cur'
    have "(bt p (gs @ [case cur of Some g \<Rightarrow> g | None \<Rightarrow> []]) None s = None)
        = (bt p (gs' @ [case cur' of Some g \<Rightarrow> g | None \<Rightarrow> []]) None s = None)"
      using 3 by blast
    then show "(bt (Close # p) gs cur s = None) = (bt (Close # p) gs' cur' s = None)"
      by simp
  qed
next
  case (4 c p gs cur s)
  show ?case
  proof (intro allI)
    fix gs' cur'
    show "(bt (One c # p) gs cur s = None) = (bt (One c # p) gs' cur' s = None)"
    proof (cases s)
      case Nil
      then show ?thesis by simp
    next
      case (Cons x xs)
      show ?thesis
      proof (cases "c x")
        case True
        have "(bt p gs (note_group cur [x]) xs = None) = (bt p gs' (note_group cur' [x]) xs = None)"
          using 4[OF Cons True] by blast
        then show ?thesis using Cons True by simp
      next
        case False
        then show ?thesis using Cons by simp
      qed
    qed
  qed
next
  case (5 c p gs cur s)
  show ?case
  proof (intro allI)
    fix gs' cur'
    have "(greedy c p gs cur s (length (takeWhile c s)) = None)
        = (greedy c p gs' cur' s (length (takeWhile c s)) = None)"
      using 5 by blast
    then show "(bt (Many1 c # p) gs cur s = None) = (bt (Many1 c # p) gs' cur' s = None)"
      by simp
  qed
next
  case (6 c p gs cur s)
  show ?case by simp
next
  case (7 c p gs cur s n)
  show ?case
  proof (intro allI)
    fix gs' cur'
    have a: "(bt p gs (note_group cur (take (Suc n) s)) (drop (Suc n) s) = None)
           = (bt p gs' (note_group cur' (take (Suc n) s)) (drop (Suc n) s) = None)"
      using 7(1) by blast
    show "(greedy c p gs cur s (Suc n) = None) = (greedy c p gs' cur' s (Suc n) = None)"
    proof (cases "bt p gs (note_group cur (take (Suc n) s)) (drop (Suc n) s)")
      case None
      then have n': "bt p gs' (note_group cur' (take (Suc n) s)) (drop (Suc n) s) = None"
        using a by simp
      have "(greedy c p gs cur s n = None) = (greedy c p gs' cur' s n = None)"
        using 7(2)[OF None] by blast
      then show ?thesis using None n' by simp
    next
      case (Some r)
      then obtain r' where "bt p gs' (note_group cur' (take (Suc n) s)) (drop (Suc n) s) = Some r'"
        using a by fastforce
      then show ?thesis using Some by simp
    qed
  qed
qed

lemma bt_success_indep: "(bt p gs cur s = None) = (bt p gs' cur' s = None)"
  using bt_success_indep_aux(1) by blast

lemma run_split:
  assumes "\<forall>c\<in>set u. P c" "v = [] \<or> \<not> P (hd v)"
  shows "takeWhile P (u @ v) = u" "dropWhile P (u @ v) = v"
proof -
  have v: "takeWhile P v = []" "dropWhile P v = v"
    using assms(2) by (cases v; simp)+
  show "takeWhile P (u @ v) = u" using assms(1) v by (simp add: takeWhile_append2)
  show "dropWhile P (u @ v) = v" using assms(1) v by (simp add: dropWhile_append2)
qed

lemma strike_eq:
  "bt strike_pattern gs cur s =
     (if takeWhile is_digit s = [] then None
      else Some (gs @ [takeWhile is_digit s], dropWhile is_digit s))"
proof (cases "length (takeWhile is_digit s)")
  case 0
  then show ?thesis by (simp add: strike_pattern_def)
next
  case (Suc n)
  then have ne: "takeWhile is_digit s \<noteq> []" by auto
  have "take (Suc n) s = takeWhile is_digit s"
    by (metis Suc takeWhile_eq_take)
  moreover have "drop (Suc n) s = dropWhile is_digit s"
    by (metis Suc dropWhile_eq_drop)
  ultimately show ?thesis using Suc ne by (simp add: strike_pattern_def)
qed

lemma strike_reject: "\<not> is_digit x \<Longrightarrow> bt strike_pattern gs cur (x # xs) = None"
  by (simp add: strike_eq)

lemma flag_reject:
  "x \<noteq> CHR ''P'' \<Longrightarrow> x \<noteq> CHR ''C'' \<Longrightarrow> bt flag_pattern gs cur (x # xs) = None"
  by (simp add: flag_pattern_def)

lemma date_reject: "\<not> is_digit x \<Longrightarrow> bt date_pattern gs cur (x # xs) = None"
  by (simp add: date_pattern_def)

lemma space_not_PC: "is_space x \<Longrightarrow> x \<noteq> CHR ''P'' \<and> x \<noteq> CHR ''C''"
  by (auto simp: is_space_def)

lemma spaces_then_strike:
  "bt (Many1 is_space # strike_pattern) gs cur s =
     (if takeWhile is_space s = [] then None
      else bt strike_pattern gs (note_group cur (takeWhile is_space s)) (dropWhile is_space s))"
  by (rule bt_Many1_reject) (use digit_not_space strike_reject in blast)

lemma spaces_then_flag:
  "bt (Many1 is_space # flag_pattern) gs cur s =
     (if takeWhile is_space s = [] then None
      else bt flag_pattern gs (note_group cur (takeWhile is_space s)) (dropWhile is_space s))"
  by (rule bt_Many1_reject) (use space_not_PC flag_reject in blast)

lemma spaces_then_date:
  "bt (Many1 is_space # date_pattern) gs cur s =
     (if takeWhile is_space s = [] then None
      else bt date_pattern gs (note_group cur (takeWhile is_space s)) (dropWhile is_space s))"
  by (rule bt_Many1_reject) (use digit_not_space date_reject in blast)

lemma word_then_spaces:
  "bt (Many1 is_word # Close # Many1 is_space # p) gs cur s =
     (if takeWhile is_word s = [] then None
      else bt (Close # Many1 is_space # p) gs (note_group cur (takeWhile is_word s))
             (dropWhile is_word s))"
  by (rule bt_Many1_reject) (simp add: word_not_space)

lemma flag_eq:
  "bt flag_pattern gs cur s =
     (case s of [] \<Rightarrow> None
      | f # s' \<Rightarrow>
          if (f = CHR ''P'' \<or> f = CHR ''C'') \<and> takeWhile is_space s' \<noteq> []
          then bt strike_pattern (gs @ [[f]]) None (dropWhile is_space s') else None)"
proof (cases s)
  case Nil
  then show ?thesis by (simp add: flag_pattern_def)
next
  case (Cons f s')
  have "bt flag_pattern gs cur (f # s') =
          (if f = CHR ''P'' \<or> f = CHR ''C''
           then bt (Many1 is_space # strike_pattern) (gs @ [[f]]) None s' else None)"
    by (simp add: flag_pattern_def)
  then show ?thesis using Cons by (simp add: spaces_then_strike del: bt.simps(5))
qed

lemma date_eq:
  "bt date_pattern gs cur s =
     (case s of
        a # b # x # c # d # y # e # f # s' \<Rightarrow>
          if is_digit a \<and> is_digit b \<and> x = CHR ''/'' \<and> is_digit c \<and> is_digit d \<and> y = CHR ''/''
             \<and> is_digit e \<and> is_digit f \<and> takeWhile is_space s' \<noteq> []
          then bt flag_pattern (gs @ [[a, b, x, c, d, y, e, f]]) None (dropWhile is_space s')
          else None
      | _ \<Rightarrow> None)"
  by (simp add: date_pattern_def spaces_then_flag del: bt.simps(5) split: list.split)

lemma ticker_eq:
  "bt option_pattern gs cur s =
     (if takeWhile is_word s = [] \<or> takeWhile is_space (dropWhile is_word s) = [] then None
      else bt date_pattern (gs @ [takeWhile is_word s]) None
             (dropWhile is_space (dropWhile is_word s)))"
  by (simp add: option_pattern_def word_then_spaces spaces_then_date del: bt.simps(5))

lemma space_not_word: "is_space c \<Longrightarrow> \<not> is_word c"
  using word_not_space by blast

lemma search_nil: "re_search option_pattern [] = None"
  by (simp add: ticker_eq)

lemma search_hit:
  "bt option_pattern [] None s = Some (gs, rest) \<Longrightarrow> re_search option_pattern s = Some gs"
  by (cases s) simp_all

lemma search_skip_nonword:
  "\<not> is_word c \<Longrightarrow> re_search option_pattern (c # cs) = re_search option_pattern cs"
  by (simp add: ticker_eq)

lemma search_skip_spaces:
  "\<forall>c\<in>set w. is_space c \<Longrightarrow> re_search option_pattern (w @ s) = re_search option_pattern s"
proof (induction w)
  case Nil
  show ?case by simp
next
  case (Cons a w)
  then have "\<not> is_word a" by (simp add: space_not_word)
  then have "re_search option_pattern (a # (w @ s)) = re_search option_pattern (w @ s)"
    by (rule search_skip_nonword)
  then show ?case using Cons by simp
qed

lemma match_word_run:
  assumes "u \<noteq> []" "\<forall>c\<in>set u. is_word c" "rest = [] \<or> \<not> is_word (hd rest)"
  shows "(bt option_pattern [] None (u @ rest) = None) = (\<not> tail_ok rest)"
proof -
  have tw: "takeWhile is_word (u @ rest) = u" "dropWhile is_word (u @ rest) = rest"
    using run_split[OF assms(2,3)] by simp_all
  have "(bt date_pattern ([] @ [u]) None (dropWhile is_space rest) = None)
      = (bt date_pattern [] None (dropWhile is_space rest) = None)"
    by (rule bt_success_indep)
  then have indep: "(bt date_pattern [u] None (dropWhile is_space rest) = None)
      = (bt date_pattern [] None (dropWhile is_space rest) = None)"
    by simp
  have eq: "bt option_pattern [] None (u @ rest) =
              (if takeWhile is_space rest = [] then None
               else bt date_pattern [u] None (dropWhile is_space rest))"
    using assms(1) by (simp add: ticker_eq tw)
  show ?thesis
  proof (cases "takeWhile is_space rest = []")
    case True
    then show ?thesis using eq by (simp add: tail_ok_def)
  next
    case False
    then have "(bt option_pattern [] None (u @ rest) = None)
             = (bt date_pattern [] None (dropWhile is_space rest) = None)"
      using eq indep by simp
    then show ?thesis using False unfolding tail_ok_def by auto
  qed
qed

lemma search_skip_word_run:
  assumes "\<forall>c\<in>set u. is_word c" "rest = [] \<or> \<not> is_word (hd rest)" "\<not> tail_ok rest"
  shows "re_search option_pattern (u @ rest) = re_search option_pattern rest"
  using assms(1)
proof (induction u)
  case Nil
  show ?case by simp
next
  case (Cons x u)
  have "bt option_pattern [] None ((x # u) @ rest) = None"
    using match_word_run[of "x # u" rest] Cons.prems assms(2,3) by simp
  then have "re_search option_pattern ((x # u) @ rest) = re_search option_pattern (u @ rest)"
    by simp
  then show ?case using Cons by simp
qed

lemma date_token_shape:
  assumes "date_token d"
  obtains a b c e g h where "d = [a, b, CHR ''/'', c, e, CHR ''/'', g, h]"
    "is_digit a" "is_digit b" "is_digit c" "is_digit e" "is_digit g" "is_digit h"
proof -
  from assms have len: "length d = 8" by (simp add: date_token_def)
  then obtain a b x c e y g h where d: "d = [a, b, x, c, e, y, g, h]"
    by (auto simp: eval_nat_numeral length_Suc_conv)
  with assms have "x = CHR ''/''" "y = CHR ''/''"
    "is_digit a" "is_digit b" "is_digit c" "is_digit e" "is_digit g" "is_digit h"
    by (simp_all add: date_token_def)
  with d show ?thesis using that by blast
qed

lemma hd_separator: "separator w \<Longrightarrow> is_space (hd (w @ s)) \<and> w @ s \<noteq> []"
  by (cases w) (simp_all add: separator_def)

lemma match_well_formed:
  assumes t: "word_token t" and w1: "separator w1" and d: "date_token d"
    and w2: "separator w2" and f: "flag_char f" and w3: "separator w3"
    and k: "digits_token k" and rest: "rest = [] \<or> \<not> is_digit (hd rest)"
  shows "bt option_pattern gs cur (t @ w1 @ d @ w2 @ f # w3 @ k @ rest)
           = Some (gs @ [t, d, [f], k], rest)"
proof -
  obtain a b c e g h where dd: "d = [a, b, CHR ''/'', c, e, CHR ''/'', g, h]"
    and dig: "is_digit a" "is_digit b" "is_digit c" "is_digit e" "is_digit g" "is_digit h"
    using date_token_shape[OF d] by blast
  let ?s5 = "k @ rest"
  let ?s4 = "w3 @ ?s5"
  let ?s3 = "w2 @ f # ?s4"
  let ?s2 = "d @ ?s3"
  let ?s1 = "w1 @ ?s2"
  have r1: "takeWhile is_word (t @ ?s1) = t" "dropWhile is_word (t @ ?s1) = ?s1"
    using run_split[of t is_word ?s1] t hd_separator[OF w1, of ?s2] space_not_word
    by (auto simp: word_token_def)
  have r2: "takeWhile is_space ?s1 = w1" "dropWhile is_space ?s1 = ?s2"
    using run_split[of w1 is_space ?s2] w1 dig(1) digit_not_space
    by (auto simp: separator_def dd)
  have r3: "takeWhile is_space ?s3 = w2" "dropWhile is_space ?s3 = f # ?s4"
    using run_split[of w2 is_space "f # ?s4"] w2 f
    by (auto simp: separator_def flag_char_def is_space_def)
  have k1: "is_digit (hd ?s5)" "?s5 \<noteq> []"
    using k by (cases k; simp add: digits_token_def)+
  have r4: "takeWhile is_space ?s4 = w3" "dropWhile is_space ?s4 = ?s5"
    using run_split[of w3 is_space ?s5] w3 k1 digit_not_space
    by (auto simp: separator_def)
  have r5: "takeWhile is_digit ?s5 = k" "dropWhile is_digit ?s5 = rest"
    using run_split[of k is_digit rest] k rest
    by (auto simp: digits_token_def)
  have k0: "k \<noteq> []" "t \<noteq> []" "w1 \<noteq> []" "w2 \<noteq> []" "w3 \<noteq> []"
    using k t w1 w2 w3 by (simp_all add: digits_token_def word_token_def separator_def)
  have strike: "bt strike_pattern (gs @ [t, d, [f]]) None ?s5 = Some (gs @ [t, d, [f], k], rest)"
    using r5 k0 by (simp add: strike_eq)
  have flag: "bt flag_pattern (gs @ [t, d]) None (f # ?s4) = Some (gs @ [t, d, [f], k], rest)"
    using strike r4 k0 f by (simp add: flag_eq flag_char_def)
  have date: "bt date_pattern (gs @ [t]) None ?s2 = Some (gs @ [t, d, [f], k], rest)"
    using flag r3 k0 dig by (simp add: date_eq dd)
  show ?thesis
    using date r1 r2 k0 by (simp add: ticker_eq)
qed

lemma extract_hit:
  "bt option_pattern [] None s = Some ([t, e, ty, k], rest)
     \<Longrightarrow> extract_option_details s = Some (t, e, ty, k)"
  using search_hit[of s "[t, e, ty, k]" rest] by (simp add: extract_option_details_def)

lemma extract_well_formed:
  assumes "word_token t" "separator w1" "date_token d" "separator w2" "flag_char f"
    "separator w3" "digits_token k" "rest = [] \<or> \<not> is_digit (hd rest)"
  shows "extract_option_details (t @ w1 @ d @ w2 @ f # w3 @ k @ rest) = Some (t, d, [f], k)"
  using match_well_formed[OF assms, of "[]" None] extract_hit by simp

lemmas token_defs = word_token_def separator_def date_token_def digits_token_def flag_char_def
  is_word_def is_space_def is_digit_def

lemma takeWhile_none: "\<forall>c\<in>set xs. \<not> P c \<Longrightarrow> takeWhile P xs = []"
  by (cases xs) auto

lemma no_space_no_match:
  "\<forall>c\<in>set s. \<not> is_space c \<Longrightarrow> re_search option_pattern s = None"
proof (induction s)
  case Nil
  show ?case by (rule search_nil)
next
  case (Cons c cs)
  have "\<forall>x\<in>set (dropWhile is_word (c # cs)). \<not> is_space x"
    using Cons.prems by (meson set_dropWhileD)
  then have "takeWhile is_space (dropWhile is_word (c # cs)) = []"
    by (rule takeWhile_none)
  then have "bt option_pattern [] None (c # cs) = None"
    by (simp add: ticker_eq)
  then show ?case using Cons by simp
qed

lemma tail_ok_nil: "\<not> tail_ok []"
  by (simp add: tail_ok_def)

lemma tail_ok_nonspace: "\<not> is_space c \<Longrightarrow> \<not> tail_ok (c # s)"
  by (simp add: tail_ok_def)

lemma tail_ok_sep:
  assumes "separator w" "s = [] \<or> \<not> is_space (hd s)"
  shows "tail_ok (w @ s) = (bt date_pattern [] None s \<noteq> None)"
proof -
  have "takeWhile is_space (w @ s) = w" "dropWhile is_space (w @ s) = s"
    using run_split[of w is_space s] assms by (auto simp: separator_def)
  then show ?thesis using assms(1) by (simp add: tail_ok_def separator_def)
qed

lemma date_fail_nondigit: "s = [] \<or> \<not> is_digit (hd s) \<Longrightarrow> bt date_pattern gs cur s = None"
  by (cases s) (simp_all add: date_reject, simp add: date_pattern_def)

lemma date_fail_no_slash:
  assumes "CHR ''/'' \<notin> set s"
  shows "bt date_pattern gs cur s = None"
proof (cases s)
  case Nil
  then show ?thesis by (simp add: date_pattern_def)
next
  case s1: (Cons a s1)
  show ?thesis
  proof (cases s1)
    case Nil
    then show ?thesis using s1 by (simp add: date_pattern_def)
  next
    case s2: (Cons b s2)
    show ?thesis
    proof (cases s2)
      case Nil
      then show ?thesis using s1 s2 by (simp add: date_pattern_def)
    next
      case (Cons x r)
      then have "x \<noteq> CHR ''/''" using assms s1 s2 by auto
      then show ?thesis using s1 s2 Cons by (simp add: date_pattern_def)
    qed
  qed
qed

lemma digit_not_slash: "is_digit c \<Longrightarrow> c \<noteq> CHR ''/''"
  by (auto simp: is_digit_def)

lemma slash_not_word: "\<not> is_word CHR ''/''" "\<not> is_space CHR ''/''"
  by (simp_all add: is_word_def is_space_def)

lemma date_on_token:
  assumes "date_token d"
  shows "bt date_pattern gs cur (d @ s) =
           (if takeWhile is_space s = [] then None
            else bt flag_pattern (gs @ [d]) None (dropWhile is_space s))"
proof -
  obtain a b c e g h where d: "d = [a, b, CHR ''/'', c, e, CHR ''/'', g, h]"
    and dig: "is_digit a" "is_digit b" "is_digit c" "is_digit e" "is_digit g" "is_digit h"
    using date_token_shape[OF assms] by blast
  show ?thesis using dig by (simp add: d date_eq)
qed

lemma search_through_date:
  assumes u: "\<forall>c\<in>set u. is_word c" and d: "date_token d"
  shows "re_search option_pattern (u @ d @ rest) = re_search option_pattern (drop 6 d @ rest)"
proof -
  obtain a b c e g h where dd: "d = [a, b, CHR ''/'', c, e, CHR ''/'', g, h]"
    and dig: "is_digit a" "is_digit b" "is_digit c" "is_digit e" "is_digit g" "is_digit h"
    using date_token_shape[OF d] by blast
  let ?r2 = "CHR ''/'' # g # h # rest"
  let ?r1 = "CHR ''/'' # c # e # ?r2"
  have w1: "\<forall>x\<in>set (u @ [a, b]). is_word x" using u dig digit_word by auto
  have "re_search option_pattern ((u @ [a, b]) @ ?r1) = re_search option_pattern ?r1"
    by (rule search_skip_word_run[OF w1]) (simp_all add: slash_not_word tail_ok_nonspace)
  also have "\<dots> = re_search option_pattern ([c, e] @ ?r2)"
    using search_skip_nonword[OF slash_not_word(1)] by simp
  also have "\<dots> = re_search option_pattern ?r2"
    by (rule search_skip_word_run) (use dig digit_word in \<open>simp_all add: slash_not_word tail_ok_nonspace\<close>)
  also have "\<dots> = re_search option_pattern (g # h # rest)"
    using search_skip_nonword[OF slash_not_word(1)] by simp
  finally show ?thesis by (simp add: dd)
qed

lemma word_sep_digits:
  assumes u: "\<forall>c\<in>set u. is_word c" and w: "separator w" and k: "\<forall>c\<in>set k. is_digit c"
  shows "re_search option_pattern (u @ w @ k) = None"
proof -
  have kk: "k = [] \<or> \<not> is_space (hd k)"
    using k digit_not_space by (cases k) auto
  have "bt date_pattern [] None k = None"
    using k digit_not_slash by (intro date_fail_no_slash) auto
  then have nt: "\<not> tail_ok (w @ k)" using tail_ok_sep[OF w kk] by simp
  have st: "w @ k = [] \<or> \<not> is_word (hd (w @ k))"
    using hd_separator[OF w, of k] space_not_word by auto
  have "re_search option_pattern (u @ w @ k) = re_search option_pattern (w @ k)"
    by (rule search_skip_word_run[OF u st nt])
  also have "\<dots> = re_search option_pattern k"
    using w by (intro search_skip_spaces) (simp add: separator_def)
  also have "\<dots> = None"
    using k digit_not_space by (intro no_space_no_match) auto
  finally show ?thesis .
qed

lemma after_date_standard:
  assumes "is_digit g" "is_digit h" "separator w2" "\<not> is_digit x" "\<not> is_space x"
    and "re_search option_pattern (x # Y) = None"
  shows "re_search option_pattern (g # h # w2 @ x # Y) = None"
proof -
  have u: "\<forall>c\<in>set [g, h]. is_word c" using assms(1,2) digit_word by simp
  have st: "w2 @ x # Y = [] \<or> \<not> is_word (hd (w2 @ x # Y))"
    using hd_separator[OF assms(3), of "x # Y"] space_not_word by auto
  have "tail_ok (w2 @ x # Y) = (bt date_pattern [] None (x # Y) \<noteq> None)"
    using tail_ok_sep[OF assms(3), of "x # Y"] assms(5) by simp
  then have nt: "\<not> tail_ok (w2 @ x # Y)"
    using date_fail_nondigit[of "x # Y"] assms(4) by simp
  have "re_search option_pattern ([g, h] @ w2 @ x # Y) = re_search option_pattern (w2 @ x # Y)"
    by (rule search_skip_word_run[OF u st nt])
  also have "\<dots> = re_search option_pattern (x # Y)"
    using assms(3) by (intro search_skip_spaces) (simp add: separator_def)
  finally show ?thesis using assms(6) by simp
qed

text \<open>The date is not followed by white space, a flag, white space and a strike.\<close>

definition after_fail :: "string \<Rightarrow> bool" where
  "after_fail X \<longleftrightarrow>
     takeWhile is_space X = [] \<or> bt flag_pattern [] None (dropWhile is_space X) = None"

lemma frame:
  assumes t: "\<forall>c\<in>set t. is_word c" and w1: "\<forall>c\<in>set w1. is_space c" and d: "date_token d"
    and i: "t = [] \<or> w1 = [] \<or> after_fail X"
    and ii: "re_search option_pattern (drop 6 d @ X) = None"
  shows "re_search option_pattern (t @ w1 @ d @ X) = None"
proof (cases "w1 = []")
  case True
  then show ?thesis using search_through_date[OF t d, of X] ii by simp
next
  case False
  then have sep: "separator w1" using w1 by (simp add: separator_def)
  have e: "\<forall>c\<in>set ([] :: string). is_word c" by simp
  have after: "re_search option_pattern (w1 @ d @ X) = None"
  proof -
    have "re_search option_pattern (w1 @ d @ X) = re_search option_pattern (d @ X)"
      using w1 by (rule search_skip_spaces)
    also have "\<dots> = re_search option_pattern (drop 6 d @ X)"
      using search_through_date[OF e d, of X] by simp
    finally show ?thesis using ii by simp
  qed
  show ?thesis
  proof (cases "t = []")
    case True
    then show ?thesis using after by simp
  next
    case tne: False
    with i False have af: "after_fail X" by simp
    obtain a b c e g h where dd: "d = [a, b, CHR ''/'', c, e, CHR ''/'', g, h]"
      and dig: "is_digit a" "is_digit b" "is_digit c" "is_digit e" "is_digit g" "is_digit h"
      using date_token_shape[OF d] by blast
    from dd dig(1) have hd: "d @ X = [] \<or> \<not> is_space (hd (d @ X))"
      using digit_not_space by simp
    have "(bt flag_pattern ([] @ [d]) None (dropWhile is_space X) = None)
        = (bt flag_pattern [] None (dropWhile is_space X) = None)"
      by (rule bt_success_indep)
    then have "bt date_pattern [] None (d @ X) = None"
      using af by (auto simp: date_on_token[OF d] after_fail_def)
    then have nt: "\<not> tail_ok (w1 @ d @ X)"
      using tail_ok_sep[OF sep hd] by simp
    have st: "w1 @ d @ X = [] \<or> \<not> is_word (hd (w1 @ d @ X))"
      using hd_separator[OF sep, of "d @ X"] space_not_word by auto
    have "re_search option_pattern (t @ w1 @ d @ X) = re_search option_pattern (w1 @ d @ X)"
      by (rule search_skip_word_run[OF t st nt])
    then show ?thesis using after by simp
  qed
qed

lemma after_fail_sep:
  assumes "separator w" "Y = [] \<or> \<not> is_space (hd Y)" "bt flag_pattern [] None Y = None"
  shows "after_fail (w @ Y)"
proof -
  have "dropWhile is_space (w @ Y) = Y"
    using run_split[of w is_space Y] assms(1,2) by (auto simp: separator_def)
  then show ?thesis using assms(3) by (simp add: after_fail_def)
qed

lemma after_fail_nosep: "\<not> is_space x \<Longrightarrow> after_fail (x # X)"
  by (simp add: after_fail_def)

lemma flag_fail_other:
  "Y = [] \<or> (hd Y \<noteq> CHR ''P'' \<and> hd Y \<noteq> CHR ''C'') \<Longrightarrow> bt flag_pattern gs cur Y = None"
  by (cases Y) (auto simp: flag_eq)

lemma flag_fail_no_strike:
  assumes "\<forall>c\<in>set w. is_space c"
  shows "bt flag_pattern gs cur (f # w) = None"
proof -
  have dw: "dropWhile is_space w = []" using assms by simp
  show ?thesis by (simp add: flag_eq strike_eq dw)
qed

lemma flag_fail_no_sep:
  assumes "\<forall>c\<in>set k. is_digit c"
  shows "bt flag_pattern gs cur (f # k) = None"
proof -
  have tw: "takeWhile is_space k = []"
    using assms digit_not_space by (intro takeWhile_none) auto
  show ?thesis by (simp add: flag_eq tw)
qed

lemma extract_none: "re_search option_pattern s = None \<Longrightarrow> extract_option_details s = None"
  by (simp add: extract_option_details_def)

lemma flag_char_props: "flag_char f \<Longrightarrow> is_word f \<and> \<not> is_digit f \<and> \<not> is_space f"
  by (auto simp: flag_char_def is_word_def is_digit_def is_space_def)

lemma lower_flag_props:
  "l = CHR ''p'' \<or> l = CHR ''c'' \<Longrightarrow>
     is_word l \<and> \<not> is_digit l \<and> \<not> is_space l \<and> l \<noteq> CHR ''P'' \<and> l \<noteq> CHR ''C''"
  by (auto simp: is_word_def is_digit_def is_space_def)

lemma missing_token_variants:
  assumes t: "word_token t" and w1: "separator w1" and d: "date_token d"
    and w2: "separator w2" and f: "flag_char f" and w3: "separator w3" and k: "digits_token k"
    and w: "separator w" and sp: "\<forall>c\<in>set sp. is_space c"
    and l: "l = CHR ''p'' \<or> l = CHR ''c''"
  shows "re_search option_pattern (sp @ d @ w2 @ f # w3 @ k) = None"
    and "re_search option_pattern (t @ w @ f # w3 @ k) = None"
    and "re_search option_pattern (t @ w1 @ d @ w @ k) = None"
    and "re_search option_pattern (t @ w1 @ d @ w2 @ f # sp) = None"
    and "re_search option_pattern (t @ d @ w2 @ f # w3 @ k) = None"
    and "re_search option_pattern (t @ w1 @ d @ f # w3 @ k) = None"
    and "re_search option_pattern (t @ w1 @ d @ w2 @ f # k) = None"
    and "re_search option_pattern (t @ w1 @ d @ w2 @ l # w3 @ k) = None"
proof -
  obtain a b c e g h where dd: "d = [a, b, CHR ''/'', c, e, CHR ''/'', g, h]"
    and dig: "is_digit a" "is_digit b" "is_digit c" "is_digit e" "is_digit g" "is_digit h"
    using date_token_shape[OF d] by blast
  have d6: "drop 6 d = [g, h]" by (simp add: dd)
  have tw: "\<forall>c\<in>set t. is_word c" using t by (simp add: word_token_def)
  have s1: "\<forall>c\<in>set w1. is_space c" and s2: "\<forall>c\<in>set w2. is_space c"
    and s3: "\<forall>c\<in>set w3. is_space c"
    using w1 w2 w3 by (simp_all add: separator_def)
  have kd: "\<forall>c\<in>set k. is_digit c" and kne: "k \<noteq> []" using k by (simp_all add: digits_token_def)
  have khd: "is_digit (hd k)" using kd kne by (cases k) auto
  note fp = flag_char_props[OF f]
  note lp = lower_flag_props[OF l]
  have e: "\<forall>c\<in>set ([] :: string). is_space c" "\<forall>c\<in>set ([] :: string). is_word c"
    "\<forall>c\<in>set ([] :: string). is_digit c" by simp_all
  have fk: "re_search option_pattern (f # w3 @ k) = None"
    using word_sep_digits[of "[f]" w3 k] fp w3 kd by simp
  have lk: "re_search option_pattern (l # w3 @ k) = None"
    using word_sep_digits[of "[l]" w3 k] lp w3 kd by simp
  have f3: "re_search option_pattern (f # sp) = None"
  proof (cases "sp = []")
    case True
    have "re_search option_pattern [f] = None"
      using fp by (intro no_space_no_match) simp
    then show ?thesis using True by simp
  next
    case False
    then have "separator sp" using sp by (simp add: separator_def)
    then show ?thesis using word_sep_digits[of "[f]" sp "[]"] fp by simp
  qed
  have fd: "re_search option_pattern (f # k) = None"
    using kd fp digit_not_space by (intro no_space_no_match) auto
  have full: "re_search option_pattern (g # h # w2 @ f # w3 @ k) = None"
    using after_date_standard[OF dig(5,6) w2 _ _ fk] fp by simp
  show "re_search option_pattern (sp @ d @ w2 @ f # w3 @ k) = None"
    using frame[OF e(2) sp d, of "w2 @ f # w3 @ k"] full by (simp add: d6)
  show "re_search option_pattern (t @ d @ w2 @ f # w3 @ k) = None"
    using frame[OF tw e(1) d, of "w2 @ f # w3 @ k"] full by (simp add: d6)
  show "re_search option_pattern (t @ w @ f # w3 @ k) = None"
  proof -
    have "tail_ok (w @ f # w3 @ k) = (bt date_pattern [] None (f # w3 @ k) \<noteq> None)"
      using tail_ok_sep[OF w, of "f # w3 @ k"] fp by simp
    then have nt: "\<not> tail_ok (w @ f # w3 @ k)"
      using date_fail_nondigit[of "f # w3 @ k"] fp by simp
    have st: "w @ f # w3 @ k = [] \<or> \<not> is_word (hd (w @ f # w3 @ k))"
      using hd_separator[OF w, of "f # w3 @ k"] space_not_word by auto
    have "re_search option_pattern (t @ w @ f # w3 @ k)
            = re_search option_pattern (w @ f # w3 @ k)"
      by (rule search_skip_word_run[OF tw st nt])
    also have "\<dots> = re_search option_pattern (f # w3 @ k)"
      using w by (intro search_skip_spaces) (simp add: separator_def)
    finally show ?thesis using fk by simp
  qed
  show "re_search option_pattern (t @ w1 @ d @ w @ k) = None"
  proof -
    have kk: "k = [] \<or> \<not> is_space (hd k)" using khd digit_not_space by blast
    have "hd k \<noteq> CHR ''P'' \<and> hd k \<noteq> CHR ''C''" using khd by (auto simp: is_digit_def)
    then have "bt flag_pattern [] None k = None" by (intro flag_fail_other) simp
    then have af: "after_fail (w @ k)" by (rule after_fail_sep[OF w kk])
    have ii: "re_search option_pattern ([g, h] @ w @ k) = None"
      using dig(5,6) digit_word by (intro word_sep_digits[OF _ w kd]) auto
    show ?thesis using frame[OF tw s1 d, of "w @ k"] af ii by (simp add: d6)
  qed
  show "re_search option_pattern (t @ w1 @ d @ w2 @ f # sp) = None"
  proof -
    have "bt flag_pattern [] None (f # sp) = None" using sp by (rule flag_fail_no_strike)
    then have af: "after_fail (w2 @ f # sp)"
      using after_fail_sep[OF w2, of "f # sp"] fp by simp
    have ii: "re_search option_pattern (g # h # w2 @ f # sp) = None"
      using after_date_standard[OF dig(5,6) w2 _ _ f3] fp by simp
    show ?thesis using frame[OF tw s1 d, of "w2 @ f # sp"] af ii by (simp add: d6)
  qed
  show "re_search option_pattern (t @ w1 @ d @ f # w3 @ k) = None"
  proof -
    have af: "after_fail (f # w3 @ k)" using fp by (intro after_fail_nosep) simp
    have ii: "re_search option_pattern ([g, h, f] @ w3 @ k) = None"
      using dig(5,6) digit_word fp by (intro word_sep_digits[OF _ w3 kd]) auto
    show ?thesis using frame[OF tw s1 d, of "f # w3 @ k"] af ii by (simp add: d6)
  qed
  show "re_search option_pattern (t @ w1 @ d @ w2 @ f # k) = None"
  proof -
    have "bt flag_pattern [] None (f # k) = None" using kd by (rule flag_fail_no_sep)
    then have af: "after_fail (w2 @ f # k)"
      using after_fail_sep[OF w2, of "f # k"] fp by simp
    have ii: "re_search option_pattern (g # h # w2 @ f # k) = None"
      using after_date_standard[OF dig(5,6) w2 _ _ fd] fp by simp
    show ?thesis using frame[OF tw s1 d, of "w2 @ f # k"] af ii by (simp add: d6)
  qed
  show "re_search option_pattern (t @ w1 @ d @ w2 @ l # w3 @ k) = None"
  proof -
    have "bt flag_pattern [] None (l # w3 @ k) = None" using lp by (intro flag_fail_other) simp
    then have af: "after_fail (w2 @ l # w3 @ k)"
      using after_fail_sep[OF w2, of "l # w3 @ k"] lp by simp
    have ii: "re_search option_pattern (g # h # w2 @ l # w3 @ k) = None"
      using after_date_standard[OF dig(5,6) w2 _ _ lk] lp by simp
    show ?thesis using frame[OF tw s1 d, of "w2 @ l # w3 @ k"] af ii by (simp add: d6)
  qed
qed

section \<open>The claims about the parser\<close>

text \<open>
  C9 says that a description whose strike has a decimal point, such as
  \<open>PLTR 01/19/24 C 25.50\<close>, is not matched and gives the empty identity. The search is
  not anchored at the end of the text: it matches, and the strike is cut at the point.
\<close>

theorem decimal_strike_counterexample:
  "extract_option_details ''PLTR 01/19/24 C 25.50'' = Some (''PLTR'', ''01/19/24'', ''C'', ''25'')"
  by code_simp

text \<open>
  C9, amended: for every description of the shape \<open>TICKER MM/DD/YY [P|C] NNN\<close> whose
  strike is followed by a decimal point and any further text, the pattern matches and the
  parser returns the ticker, the date, the flag and the digits of the strike before the
  point.
\<close>

theorem decimal_strike_truncated:
  assumes "word_token t" "separator w1" "date_token d" "separator w2" "flag_char f"
    "separator w3" "digits_token k"
  shows "extract_option_details (t @ w1 @ d @ w2 @ f # w3 @ k @ CHR ''.'' # fraction)
           = Some (t, d, [f], k)"
  using extract_well_formed[OF assms, of "CHR ''.'' # fraction"] by (simp add: is_digit_def)

theorem decimal_strike_truncated_witness:
  "word_token ''PLTR'' \<and> separator '' '' \<and> date_token ''01/19/24'' \<and> flag_char CHR ''C''
   \<and> digits_token ''25''
   \<and> extract_option_details (''PLTR'' @ '' '' @ ''01/19/24'' @ '' '' @ CHR ''C'' # '' '' @ ''25'' @ CHR ''.'' # ''50'')
       = Some (''PLTR'', ''01/19/24'', ''C'', ''25'')"
proof -
  have h: "word_token ''PLTR''" "separator '' ''" "date_token ''01/19/24''" "flag_char CHR ''C''"
    "digits_token ''25''"
    by (simp_all add: token_defs)
  show ?thesis
    using h decimal_strike_truncated[OF h(1) h(2) h(3) h(2) h(4) h(2) h(5), of "''50''"]
    by simp
qed

text \<open>
  C5: for every description of the shape \<open>TICKER MM/DD/YY [P|C] NNN\<close>, made of a ticker
  of word characters, white space, a date of two digits, a slash, two digits, a slash and
  two digits, white space, the flag \<open>P\<close> or \<open>C\<close>, white space and a strike of digits,
  the parser returns the ticker, the date, the flag and the strike. It returns the empty
  identity for the description without its ticker (with or without the white space that
  followed it), without its date, without its flag, without its strike (with or without
  the white space before it), without one of its three runs of white space, and with the
  flag in lower case. \<open>PLTR 01/19/24 C 25\<close> parses to its four components and
  \<open>random text\<close> to the empty identity.
\<close>

theorem parser_contract:
  assumes "word_token t" "separator w1" "date_token d" "separator w2" "flag_char f"
    "separator w3" "digits_token k" "separator w" "\<forall>c\<in>set sp. is_space c"
    "l = CHR ''p'' \<or> l = CHR ''c''"
  shows "extract_option_details (t @ w1 @ d @ w2 @ f # w3 @ k) = Some (t, d, [f], k)
   \<and> extract_option_details (sp @ d @ w2 @ f # w3 @ k) = None
   \<and> extract_option_details (t @ w @ f # w3 @ k) = None
   \<and> extract_option_details (t @ w1 @ d @ w @ k) = None
   \<and> extract_option_details (t @ w1 @ d @ w2 @ f # sp) = None
   \<and> extract_option_details (t @ d @ w2 @ f # w3 @ k) = None
   \<and> extract_option_details (t @ w1 @ d @ f # w3 @ k) = None
   \<and> extract_option_details (t @ w1 @ d @ w2 @ f # k) = None
   \<and> extract_option_details (t @ w1 @ d @ w2 @ l # w3 @ k) = None
   \<and> extract_option_details ''PLTR 01/19/24 C 25'' = Some (''PLTR'', ''01/19/24'', ''C'', ''25'')
   \<and> extract_option_details ''random text'' = None"
proof -
  have a: "extract_option_details (t @ w1 @ d @ w2 @ f # w3 @ k) = Some (t, d, [f], k)"
    using extract_well_formed[OF assms(1-7), of "[]"] by simp
  have p: "extract_option_details ''PLTR 01/19/24 C 25'' = Some (''PLTR'', ''01/19/24'', ''C'', ''25'')"
    by code_simp
  have r: "extract_option_details ''random text'' = None"
    by code_simp
  show ?thesis
    using a p r missing_token_variants[OF assms, THEN extract_none] by simp
qed

theorem parser_contract_witness:
  "word_token ''PLTR'' \<and> separator '' '' \<and> date_token ''01/19/24'' \<and> flag_char CHR ''C''
   \<and> digits_token ''25''
   \<and> extract_option_details (''PLTR'' @ '' '' @ ''01/19/24'' @ '' '' @ CHR ''C'' # '' '' @ ''25'')
       = Some (''PLTR'', ''01/19/24'', ''C'', ''25'')
   \<and> extract_option_details ('' '' @ ''01/19/24'' @ '' '' @ CHR ''C'' # '' '' @ ''25'') = None
   \<and> extract_option_details (''PLTR'' @ '' '' @ CHR ''C'' # '' '' @ ''25'') = None
   \<and> extract_option_details (''PLTR'' @ '' '' @ ''01/19/24'' @ '' '' @ ''25'') = None
   \<and> extract_option_details (''PLTR'' @ '' '' @ ''01/19/24'' @ '' '' @ CHR ''C'' # '' '') = None
   \<and> extract_option_details (''PLTR'' @ ''01/19/24'' @ '' '' @ CHR ''C'' # '' '' @ ''25'') = None
   \<and> extract_option_details (''PLTR'' @ '' '' @ ''01/19/24'' @ CHR ''C'' # '' '' @ ''25'') = None
   \<and> extract_option_details (''PLTR'' @ '' '' @ ''01/19/24'' @ '' '' @ CHR ''C'' # ''25'') = None
   \<and> extract_option_details (''PLTR'' @ '' '' @ ''01/19/24'' @ '' '' @ CHR ''c'' # '' '' @ ''25'') = None"
proof -
  have h: "word_token ''PLTR''" "separator '' ''" "date_token ''01/19/24''" "flag_char CHR ''C''"
    "digits_token ''25''"
    by (simp_all add: token_defs)
  have s: "\<forall>c\<in>set '' ''. is_space c" by (simp add: is_space_def)
  have l: "CHR ''c'' = CHR ''p'' \<or> CHR ''c'' = CHR ''c''" by simp
  from parser_contract[OF h(1) h(2) h(3) h(2) h(4) h(2) h(5) h(2) s l] h
  show ?thesis by simp
qed

section \<open>The loops of the reconciliation\<close>

lemma search_some:
  "re_search p s = Some gs \<Longrightarrow> \<exists>s' rest. bt p [] None s' = Some (gs, rest)"
proof (induction s)
  case Nil
  then obtain rest where "bt p [] None [] = Some (gs, rest)"
    by (cases "bt p [] None []") auto
  then show ?case by blast
next
  case (Cons c cs)
  show ?case
  proof (cases "bt p [] None (c # cs)")
    case None
    then show ?thesis using Cons by simp
  next
    case (Some r)
    then obtain rest where "bt p [] None (c # cs) = Some (gs, rest)"
      using Cons.prems by (cases r) simp
    then show ?thesis by blast
  qed
qed

lemma match_shape:
  assumes "bt option_pattern [] None s = Some (gs, rest)"
  shows "\<exists>t e f k. gs = [t, e, [f], k] \<and> word_token t \<and> date_token e \<and> flag_char f \<and> digits_token k"
proof -
  let ?t = "takeWhile is_word s"
  let ?s2 = "dropWhile is_space (dropWhile is_word s)"
  from assms have t: "?t \<noteq> []" and d: "bt date_pattern [?t] None ?s2 = Some (gs, rest)"
    by (auto simp: ticker_eq split: if_splits)
  have wt: "word_token ?t" using t by (auto simp: word_token_def dest: set_takeWhileD)
  from d obtain a b c e g h s3 where s2: "?s2 = a # b # CHR ''/'' # c # e # CHR ''/'' # g # h # s3"
    and dig: "is_digit a" "is_digit b" "is_digit c" "is_digit e" "is_digit g" "is_digit h"
    and fl: "bt flag_pattern [?t, [a, b, CHR ''/'', c, e, CHR ''/'', g, h]] None (dropWhile is_space s3) = Some (gs, rest)"
    by (auto simp: date_eq split: list.splits if_splits)
  let ?d = "[a, b, CHR ''/'', c, e, CHR ''/'', g, h]"
  have dt: "date_token ?d" using dig by (simp add: date_token_def)
  from fl obtain f s5 where f: "flag_char f"
    and st: "bt strike_pattern [?t, ?d, [f]] None (dropWhile is_space s5) = Some (gs, rest)"
    by (auto simp: flag_eq flag_char_def split: list.splits if_splits)
  let ?k = "takeWhile is_digit (dropWhile is_space s5)"
  from st have k: "?k \<noteq> []" "gs = [?t, ?d, [f], ?k]"
    by (auto simp: strike_eq split: if_splits)
  have "digits_token ?k" using k(1) by (auto simp: digits_token_def dest: set_takeWhileD)
  then show ?thesis using wt dt f k(2) by blast
qed

lemma extract_shape:
  assumes "extract_option_details d = Some (t, e, ty, k)"
  shows "word_token t \<and> date_token e \<and> (\<exists>f. ty = [f] \<and> flag_char f) \<and> digits_token k"
proof -
  from assms have "re_search option_pattern d = Some [t, e, ty, k]"
    by (auto simp: extract_option_details_def split: option.splits list.splits)
  then obtain s' rest where "bt option_pattern [] None s' = Some ([t, e, ty, k], rest)"
    using search_some by blast
  from match_shape[OF this] show ?thesis by auto
qed

lemma split_at_char:
  assumes "x \<notin> set t" "x \<notin> set t'" "t @ x # r = t' @ x # r'"
  shows "t = t' \<and> r = r'"
proof -
  have a: "\<forall>c\<in>set t. c \<noteq> x" "\<forall>c\<in>set t'. c \<noteq> x"
    using assms(1,2) by auto
  have "takeWhile (\<lambda>c. c \<noteq> x) (t @ x # r) = t" "takeWhile (\<lambda>c. c \<noteq> x) (t' @ x # r') = t'"
    using a by (simp_all add: takeWhile_append2)
  then have "t = t'" using assms(3) by simp
  then show ?thesis using assms(3) by simp
qed

lemma word_token_no_blank: "word_token t \<Longrightarrow> CHR '' '' \<notin> set t"
  by (auto simp: word_token_def is_word_def)

lemma option_key_inject:
  assumes "word_token t" "word_token t'" "date_token e" "date_token e'"
    and "option_key t e [f] k = option_key t' e' [f'] k'"
  shows "t = t' \<and> e = e' \<and> f = f' \<and> k = k'"
proof -
  from assms(5) have eq: "t @ CHR '' '' # (e @ CHR '' '' # f # CHR '' '' # k)
       = t' @ CHR '' '' # (e' @ CHR '' '' # f' # CHR '' '' # k')"
    by (simp add: option_key_def)
  from split_at_char[OF word_token_no_blank[OF assms(1)] word_token_no_blank[OF assms(2)] eq]
  have tt: "t = t'" and r: "e @ CHR '' '' # f # CHR '' '' # k = e' @ CHR '' '' # f' # CHR '' '' # k'"
    by simp_all
  have "length e = length e'" using assms(3,4) by (simp add: date_token_def)
  with r have "e = e'" "CHR '' '' # f # CHR '' '' # k = CHR '' '' # f' # CHR '' '' # k'"
    by simp_all
  with tt show ?thesis by simp
qed

lemma stock_step_eq:
  "stock_step pd buy sell (P, U) t =
     (if filter (\<lambda>r. instrument r = Some t) buy \<noteq> [] \<and> filter (\<lambda>r. instrument r = Some t) sell \<noteq> []
      then (AList.update t (stock_record pd (filter (\<lambda>r. instrument r = Some t) buy)
                                          (filter (\<lambda>r. instrument r = Some t) sell)) P, U)
      else (P, U @ [t]))"
  by (simp add: stock_step_def stock_record_def Let_def)

lemma stock_loop_map:
  "foldl (stock_step pd buy sell) (P, U) ts = (P', U') \<Longrightarrow>
   map_of P' k =
     (if k \<in> set ts \<and> filter (\<lambda>r. instrument r = Some k) buy \<noteq> []
         \<and> filter (\<lambda>r. instrument r = Some k) sell \<noteq> []
      then Some (stock_record pd (filter (\<lambda>r. instrument r = Some k) buy)
                              (filter (\<lambda>r. instrument r = Some k) sell))
      else map_of P k)"
proof (induction ts arbitrary: P U)
  case Nil
  then show ?case by simp
next
  case (Cons t ts)
  obtain P1 U1 where s: "stock_step pd buy sell (P, U) t = (P1, U1)"
    by (cases "stock_step pd buy sell (P, U) t") auto
  with Cons.prems have "foldl (stock_step pd buy sell) (P1, U1) ts = (P', U')" by simp
  from Cons.IH[OF this] s show ?case
    by (auto simp: stock_step_eq update_conv' split: if_splits)
qed

lemma stock_loop_unres:
  "foldl (stock_step pd buy sell) (P, U) ts = (P', U') \<Longrightarrow>
   U' = U @ filter (\<lambda>t. \<not> (filter (\<lambda>r. instrument r = Some t) buy \<noteq> []
                          \<and> filter (\<lambda>r. instrument r = Some t) sell \<noteq> [])) ts"
proof (induction ts arbitrary: P U)
  case Nil
  then show ?case by simp
next
  case (Cons t ts)
  obtain P1 U1 where s: "stock_step pd buy sell (P, U) t = (P1, U1)"
    by (cases "stock_step pd buy sell (P, U) t") auto
  with Cons.prems have "foldl (stock_step pd buy sell) (P1, U1) ts = (P', U')" by simp
  from Cons.IH[OF this] s show ?case
    by (auto simp: stock_step_eq split: if_splits)
qed

lemma stock_loop_distinct:
  "foldl (stock_step pd buy sell) (P, U) ts = (P', U') \<Longrightarrow> distinct (map fst P)
     \<Longrightarrow> distinct (map fst P')"
proof (induction ts arbitrary: P U)
  case Nil
  then show ?case by simp
next
  case (Cons t ts)
  obtain P1 U1 where s: "stock_step pd buy sell (P, U) t = (P1, U1)"
    by (cases "stock_step pd buy sell (P, U) t") auto
  with Cons.prems have f: "foldl (stock_step pd buy sell) (P1, U1) ts = (P', U')" by simp
  have "distinct (map fst P1)"
    using s Cons.prems(2) by (auto simp: stock_step_eq distinct_update split: if_splits)
  from Cons.IH[OF f this] show ?case .
qed

lemma set_unique_from: "set (unique_from seen xs) = set xs - set seen"
  by (induction seen xs rule: unique_from.induct) auto

lemma set_dropna: "set (dropna cells) = {x. Some x \<in> set cells}"
  by (auto simp: dropna_def split: option.splits)

lemma set_dropna_unique: "set (dropna_unique cells) = {x. Some x \<in> set cells}"
  by (simp add: dropna_unique_def set_unique_from set_dropna)

lemma option_step_outcome:
  "option_step pd sto (P, U) r =
     (case option_outcome pd sto r of
        Raise \<Rightarrow> Inl TypeError
      | Skip \<Rightarrow> Inr (P, U)
      | Record k v \<Rightarrow> Inr (AList.update k v P, U)
      | Unresolved k \<Rightarrow> Inr (P, U @ [k]))"
proof (cases "description r")
  case None
  then show ?thesis by (simp add: option_step_def option_outcome_def)
next
  case (Some d)
  show ?thesis
  proof (cases "extract_option_details d")
    case None
    then show ?thesis using Some by (simp add: option_step_def option_outcome_def)
  next
    case (Some a)
    obtain t e ty k where a: "a = (t, e, ty, k)" by (cases a) auto
    have "t \<noteq> []" using extract_shape[of d t e ty k] Some a by (simp add: word_token_def)
    then show ?thesis
      using Some a \<open>description r = Some d\<close>
      by (simp add: option_step_def option_outcome_def option_record_def Let_def)
  qed
qed


lemma keys_update: "fst ` set (AList.update k v al) = insert k (fst ` set al)"
proof -
  have "set (map fst (AList.update k v al)) = insert k (set (map fst al))"
    by (auto simp: update_keys)
  then show ?thesis by (simp only: set_map)
qed

lemma option_loop_keys:
  "option_loop pd sto rs (P, U) = Inr (P', U') \<Longrightarrow>
   fst ` set P' = fst ` set P \<union> {k. \<exists>r\<in>set rs. \<exists>v. option_outcome pd sto r = Record k v}"
proof (induction rs arbitrary: P U)
  case Nil
  then show ?case by simp
next
  case (Cons r rs)
  then obtain P1 U1 where s: "option_step pd sto (P, U) r = Inr (P1, U1)"
    and l: "option_loop pd sto rs (P1, U1) = Inr (P', U')"
    by (auto split: sum.splits)
  have "fst ` set P1 = fst ` set P \<union> {k. \<exists>v. option_outcome pd sto r = Record k v}"
  proof (cases "option_outcome pd sto r")
    case Raise
    then show ?thesis using s by (simp add: option_step_outcome)
  next
    case Skip
    then show ?thesis using s by (simp add: option_step_outcome)
  next
    case (Record k v)
    then have "P1 = AList.update k v P"
      using s by (simp add: option_step_outcome)
    then have "fst ` set P1 = insert k (fst ` set P)"
      by (simp only: keys_update)
    then show ?thesis using Record by auto
  next
    case (Unresolved k)
    then show ?thesis using s by (simp add: option_step_outcome)
  qed
  with Cons.IH[OF l] show ?case by auto
qed

lemma option_loop_unres:
  "option_loop pd sto rs (P, U) = Inr (P', U') \<Longrightarrow>
   set U' = set U \<union> {k. \<exists>r\<in>set rs. option_outcome pd sto r = Unresolved k}"
proof (induction rs arbitrary: P U)
  case Nil
  then show ?case by simp
next
  case (Cons r rs)
  then obtain P1 U1 where s: "option_step pd sto (P, U) r = Inr (P1, U1)"
    and l: "option_loop pd sto rs (P1, U1) = Inr (P', U')"
    by (auto split: sum.splits)
  have "set U1 = set U \<union> {k. option_outcome pd sto r = Unresolved k}"
    using s by (cases "option_outcome pd sto r") (auto simp: option_step_outcome)
  with Cons.IH[OF l] show ?case by auto
qed



lemma outcome_Record:
  assumes "option_outcome pd sto r = Record K v"
  shows "\<exists>d t e ty k. description r = Some d \<and> extract_option_details d = Some (t, e, ty, k)
    \<and> K = option_key t e ty k \<and> matching_sell sto t e \<noteq> []
    \<and> v = option_record pd (matching_sell sto t e) r"
proof (cases "description r")
  case None
  then show ?thesis using assms by (simp add: option_outcome_def)
next
  case (Some d)
  show ?thesis
  proof (cases "extract_option_details d")
    case None
    then show ?thesis using assms Some by (simp add: option_outcome_def)
  next
    case (Some a)
    obtain t e ty k where a: "a = (t, e, ty, k)" by (cases a) auto
    show ?thesis
      using assms Some a \<open>description r = Some d\<close>
      by (simp add: option_outcome_def split: if_splits)
  qed
qed

lemma outcome_Unresolved:
  assumes "option_outcome pd sto r = Unresolved K"
  shows "\<exists>d t e ty k. description r = Some d \<and> extract_option_details d = Some (t, e, ty, k)
    \<and> K = option_key t e ty k \<and> matching_sell sto t e = []"
proof (cases "description r")
  case None
  then show ?thesis using assms by (simp add: option_outcome_def)
next
  case (Some d)
  show ?thesis
  proof (cases "extract_option_details d")
    case None
    then show ?thesis using assms Some by (simp add: option_outcome_def)
  next
    case (Some a)
    obtain t e ty k where a: "a = (t, e, ty, k)" by (cases a) auto
    show ?thesis
      using assms Some a \<open>description r = Some d\<close>
      by (simp add: option_outcome_def split: if_splits)
  qed
qed

lemma same_key_same_identity:
  assumes "extract_option_details d = Some (t, e, ty, k)"
    and "extract_option_details d' = Some (t', e', ty', k')"
    and "option_key t e ty k = option_key t' e' ty' k'"
  shows "t = t' \<and> e = e' \<and> ty = ty' \<and> k = k'"
proof -
  from extract_shape[OF assms(1)] obtain f where
    a: "word_token t" "date_token e" "ty = [f]" by auto
  from extract_shape[OF assms(2)] obtain f' where
    b: "word_token t'" "date_token e'" "ty' = [f']" by auto
  from option_key_inject[OF a(1) b(1) a(2) b(2), of f k f' k'] assms(3) a(3) b(3)
  show ?thesis by simp
qed

lemma reconcile_unfold:
  "reconcile pd data =
     option_loop pd (filter (\<lambda>r. str_contains ''STO'' (trans_code r)) data)
       (filter (\<lambda>r. str_contains ''BTO'' (trans_code r)) data)
       (foldl (stock_step pd (filter (\<lambda>r. str_contains ''Buy'' (trans_code r)) data)
                          (filter (\<lambda>r. str_contains ''Sell'' (trans_code r)) data)) ([], [])
          (dropna_unique (map instrument (filter (\<lambda>r. str_contains ''Buy'' (trans_code r)) data))))"
  by (simp add: reconcile_def Let_def)

lemma rows_of_filter:
  "filter (\<lambda>r. instrument r = Some t) (filter (\<lambda>r. str_contains c (trans_code r)) data)
     = rows_of c t data"
  by (simp add: rows_of_def)

text \<open>The report in terms of the rows: the keys and values after both loops.\<close>

lemma reconcile_report:
  assumes "reconcile pd data = Inr (P, U)"
  shows "\<exists>P0 U0.
    option_loop pd (filter (\<lambda>r. str_contains ''STO'' (trans_code r)) data)
                (filter (\<lambda>r. str_contains ''BTO'' (trans_code r)) data) (P0, U0) = Inr (P, U)
    \<and> (\<forall>k. map_of P0 k =
        (if rows_of ''Buy'' k data \<noteq> [] \<and> rows_of ''Sell'' k data \<noteq> []
         then Some (stock_record pd (rows_of ''Buy'' k data) (rows_of ''Sell'' k data)) else None))
    \<and> set U0 = {t. rows_of ''Buy'' t data \<noteq> [] \<and> rows_of ''Sell'' t data = []}
    \<and> distinct (map fst P0)"
proof -
  let ?buy = "filter (\<lambda>r. str_contains ''Buy'' (trans_code r)) data"
  let ?sell = "filter (\<lambda>r. str_contains ''Sell'' (trans_code r)) data"
  let ?ts = "dropna_unique (map instrument ?buy)"
  obtain P0 U0 where st: "foldl (stock_step pd ?buy ?sell) ([], []) ?ts = (P0, U0)"
    by (cases "foldl (stock_step pd ?buy ?sell) ([], []) ?ts") auto
  have loop: "option_loop pd (filter (\<lambda>r. str_contains ''STO'' (trans_code r)) data)
                (filter (\<lambda>r. str_contains ''BTO'' (trans_code r)) data) (P0, U0) = Inr (P, U)"
    using assms(1) st by (simp add: reconcile_unfold)
  have ts: "\<And>k. k \<in> set ?ts \<longleftrightarrow> rows_of ''Buy'' k data \<noteq> []"
    by (auto simp: set_dropna_unique rows_of_def filter_empty_conv image_iff)
  have m: "\<forall>k. map_of P0 k =
        (if rows_of ''Buy'' k data \<noteq> [] \<and> rows_of ''Sell'' k data \<noteq> []
         then Some (stock_record pd (rows_of ''Buy'' k data) (rows_of ''Sell'' k data)) else None)"
    using stock_loop_map[OF st] ts by (simp add: rows_of_def)
  have u: "set U0 = {t. rows_of ''Buy'' t data \<noteq> [] \<and> rows_of ''Sell'' t data = []}"
    using stock_loop_unres[OF st] ts by (auto simp: rows_of_def)
  have d: "distinct (map fst P0)"
    using stock_loop_distinct[OF st] by simp
  show ?thesis using loop m u d by blast
qed

section \<open>The cleaned table\<close>

lemma clean_row_fields [simp]:
  "instrument (clean_row pd data r) = instrument r"
  "trans_code (clean_row pd data r) = trans_code r"
  "description (clean_row pd data r) = (if numeric_column pd (map description data) then None else description r)"
  by (simp_all add: clean_row_def)

lemma clean_accepts:
  "clean pd data = Inr rows \<longleftrightarrow>
     \<not> numeric_column pd (map amount data) \<and> \<not> numeric_column pd (map trans_code data)
     \<and> rows = cleaned pd data"
  by (auto simp: clean_def cleaned_def)

lemma analyze_reconcile:
  "analyze_performance pd raw = Inr rep \<Longrightarrow> reconcile pd (cleaned pd raw) = Inr rep"
  by (auto simp: analyze_performance_def clean_def cleaned_def split: if_splits)

lemma filter_clean:
  "filter (\<lambda>r. str_contains c (trans_code r)) (map (clean_row pd data) raw)
     = map (clean_row pd data) (filter (\<lambda>r. str_contains c (trans_code r)) raw)"
  by (simp add: filter_map comp_def)

lemma rows_of_clean:
  "rows_of c t (map (clean_row pd data) raw) = map (clean_row pd data) (rows_of c t raw)"
  by (simp add: rows_of_def filter_map comp_def)

lemma buy_tickers_clean: "buy_tickers (cleaned pd raw) = buy_tickers raw"
  by (simp add: buy_tickers_def cleaned_def filter_clean comp_def)


lemma concat_map_nil: "\<forall>r\<in>set rs. F r = [] \<Longrightarrow> concat (map F rs) = []"
  by (induction rs) auto

lemma bto_keys_clean: "set (bto_keys (cleaned pd raw)) \<subseteq> set (bto_keys raw)"
proof (cases "numeric_column pd (map description raw)")
  case True
  then have "bto_keys (cleaned pd raw) = []"
    unfolding bto_keys_def cleaned_def by (intro concat_map_nil) auto
  then show ?thesis by simp
next
  case False
  then have "bto_keys (cleaned pd raw) = bto_keys raw"
    by (simp add: bto_keys_def cleaned_def filter_clean comp_def)
  then show ?thesis by simp
qed


lemma set_buy_tickers: "set (buy_tickers data) = {t. rows_of ''Buy'' t data \<noteq> []}"
  by (auto simp: buy_tickers_def set_dropna_unique rows_of_def filter_empty_conv image_iff)

lemma record_in_bto_keys:
  assumes "r \<in> set (filter (\<lambda>r. str_contains ''BTO'' (trans_code r)) data)"
    "description r = Some d" "extract_option_details d = Some (t, e, ty, k)"
  shows "option_key t e ty k \<in> set (bto_keys data)"
  unfolding bto_keys_def using assms by (auto intro!: bexI[of _ r])


lemma keys_map_of: "fst ` set al = {k. map_of al k \<noteq> None}"
  by (auto simp: map_of_eq_None_iff)

section \<open>The claims about the two loops\<close>

text \<open>
  C4 says that for every input table no key is both in the performance mapping and in the
  unresolved list. The stock loop and the option loop write to the same mapping and the
  same list, so the claim fails when the instrument of a Buy row is itself the composite
  key of a BTO row (\<open>open_collision_table\<close> below). C4, amended: for every
  input table in which no instrument of a Buy row equals the composite key that a BTO
  row's description parses to, no key of the returned performance mapping is in the
  returned unresolved list.
\<close>

theorem keys_exclusive:
  assumes res: "analyze_performance pd raw = Inr (performance, unresolved)"
    and nocoll: "set (buy_tickers raw) \<inter> set (bto_keys raw) = {}"
  shows "fst ` set performance \<inter> set unresolved = {}"
proof -
  let ?data = "cleaned pd raw"
  let ?bto = "filter (\<lambda>r. str_contains ''BTO'' (trans_code r)) ?data"
  let ?sto = "filter (\<lambda>r. str_contains ''STO'' (trans_code r)) ?data"
  from res have rec: "reconcile pd ?data = Inr (performance, unresolved)"
    by (rule analyze_reconcile)
  from reconcile_report[OF rec] obtain P0 U0 where
    loop: "option_loop pd ?sto ?bto (P0, U0) = Inr (performance, unresolved)"
    and m: "\<forall>k. map_of P0 k =
        (if rows_of ''Buy'' k ?data \<noteq> [] \<and> rows_of ''Sell'' k ?data \<noteq> []
         then Some (stock_record pd (rows_of ''Buy'' k ?data) (rows_of ''Sell'' k ?data)) else None)"
    and u: "set U0 = {t. rows_of ''Buy'' t ?data \<noteq> [] \<and> rows_of ''Sell'' t ?data = []}"
    and dist: "distinct (map fst P0)"
    by blast
  have nc: "set (buy_tickers ?data) \<inter> set (bto_keys ?data) = {}"
    using nocoll bto_keys_clean[of pd raw] by (auto simp: buy_tickers_clean)
  note mk = m[rule_format]
  show ?thesis
  proof (rule ccontr)
    assume "fst ` set performance \<inter> set unresolved \<noteq> {}"
    then obtain K where kp: "K \<in> fst ` set performance" and ku: "K \<in> set unresolved" by blast
    from kp option_loop_keys[OF loop] consider
      (stock) "K \<in> fst ` set P0" | (opt) r v where "r \<in> set ?bto" "option_outcome pd ?sto r = Record K v"
      by blast
    then show False
    proof cases
      case stock
      then have "map_of P0 K \<noteq> None" by (simp add: keys_map_of)
      then have mk: "rows_of ''Buy'' K ?data \<noteq> []" "rows_of ''Sell'' K ?data \<noteq> []"
        unfolding mk[of K] by (simp_all split: if_splits)
      from ku option_loop_unres[OF loop] consider
        (u0) "K \<in> set U0" | (un) r' where "r' \<in> set ?bto" "option_outcome pd ?sto r' = Unresolved K"
        by blast
      then show False
      proof cases
        case u0
        then show False using u mk by simp
      next
        case un
        from outcome_Unresolved[OF un(2)] obtain d t e ty k where
          "description r' = Some d" "extract_option_details d = Some (t, e, ty, k)"
          "K = option_key t e ty k" by blast
        then have "K \<in> set (bto_keys ?data)" using record_in_bto_keys[OF un(1)] by simp
        moreover have "K \<in> set (buy_tickers ?data)" using mk by (simp add: set_buy_tickers)
        ultimately show False using nc by blast
      qed
    next
      case opt
      from outcome_Record[OF opt(2)] obtain d t e ty k where
        r: "description r = Some d" "extract_option_details d = Some (t, e, ty, k)"
        "K = option_key t e ty k" "matching_sell ?sto t e \<noteq> []" by blast
      then have kb: "K \<in> set (bto_keys ?data)" using record_in_bto_keys[OF opt(1)] by simp
      from ku option_loop_unres[OF loop] consider
        (u0) "K \<in> set U0" | (un) r' where "r' \<in> set ?bto" "option_outcome pd ?sto r' = Unresolved K"
        by blast
      then show False
      proof cases
        case u0
        then have "K \<in> set (buy_tickers ?data)" using u by (simp add: set_buy_tickers)
        then show False using kb nc by blast
      next
        case un
        from outcome_Unresolved[OF un(2)] obtain d' t' e' ty' k' where
          r': "description r' = Some d'" "extract_option_details d' = Some (t', e', ty', k')"
          "K = option_key t' e' ty' k'" "matching_sell ?sto t' e' = []" by blast
        from same_key_same_identity[OF r(2) r'(2)] r(3) r'(3) have "t = t'" "e = e'" by simp_all
        then show False using r(4) r'(4) by simp
      qed
    qed
  qed
qed










section \<open>The claims on example tables\<close>

lemmas eval_chars = is_digit_def is_word_def is_space_def
lemmas eval_num = plain_decimal_def unsigned_decimal_def digits_val_def numeric_cell_def
  clean_price_def clean_quantity_def clean_amount_def price_text_def amount_text_def
  currency_pattern_def paren_pattern_def paren_template_def exact_def plain_column_def
lemmas eval_rec = reconcile_def analyze_performance_def clean_def clean_row_def cleaned_def
  str_contains_def sublist_Cons_right dropna_unique_def dropna_def stock_step_def option_step_def
  products_def series_sum_def matching_sell_def option_key_def trade_def rows_of_def
  bto_keys_def matched_bto_keys_def buy_tickers_def return_percent_def nan_ne_zero_def

lemma parse_A: "extract_option_details ''A 01/19/24 C 25'' = Some (''A'', ''01/19/24'', ''C'', ''25'')"
  by code_simp

lemma parse_PLTR: "extract_option_details ''PLTR 01/19/24 C 25'' = Some (''PLTR'', ''01/19/24'', ''C'', ''25'')"
  by code_simp

lemma parse_PLTR_feb: "extract_option_details ''PLTR 02/16/24 C 30'' = Some (''PLTR'', ''02/16/24'', ''C'', ''30'')"
  by code_simp







definition open_collision_table :: "string option row list" where
  "open_collision_table =
     [trade ''A 01/19/24 C 25'' ''Buy'' ''10'' ''$100.00'' ''($1,000.00)'' ''stock bought'',
      trade ''A'' ''BTO'' ''1'' ''$2.00'' ''($2.00)'' ''A 01/19/24 C 25'',
      trade ''A'' ''STO'' ''1'' ''$5.00'' ''$5.00'' ''A 01/19/24 C 25'']"

theorem keys_exclusive_counterexample:
  "analyze_performance (exact True) open_collision_table =
     Inr ([(''A 01/19/24 C 25'',
            \<lparr>total_quantity = Some 1, total_profit_loss = Some 3, return_pct = Some 150\<rparr>)],
          [''A 01/19/24 C 25''])"
  by (simp add: open_collision_table_def eval_chars eval_num eval_rec parse_A)



definition mixed_table :: "string option row list" where
  "mixed_table =
     [trade ''XYZ'' ''Buy'' ''10'' ''$100.00'' ''($1,000.00)'' ''XYZ buy'',
      trade ''PLTR'' ''BTO'' ''1'' ''$2.00'' ''($2.00)'' ''PLTR 01/19/24 C 25'',
      trade ''PLTR'' ''STO'' ''1'' ''$5.00'' ''$5.00'' ''PLTR 01/19/24 P 30'',
      trade ''PLTR'' ''BTO'' ''1'' ''$1.00'' ''($1.00)'' ''PLTR 02/16/24 C 30'']"

lemma mixed_result:
  "analyze_performance (exact True) mixed_table =
     Inr ([(''PLTR 01/19/24 C 25'',
            \<lparr>total_quantity = Some 1, total_profit_loss = Some 3, return_pct = Some 150\<rparr>)],
          [''XYZ'', ''PLTR 02/16/24 C 30''])"
  by (simp add: mixed_table_def eval_chars eval_num eval_rec parse_PLTR parse_PLTR_feb)

theorem keys_exclusive_witness:
  "set (buy_tickers mixed_table) \<inter> set (bto_keys mixed_table) = {}
   \<and> analyze_performance (exact True) mixed_table =
     Inr ([(''PLTR 01/19/24 C 25'',
            \<lparr>total_quantity = Some 1, total_profit_loss = Some 3, return_pct = Some 150\<rparr>)],
          [''XYZ'', ''PLTR 02/16/24 C 30''])
   \<and> fst ` set [(''PLTR 01/19/24 C 25'',
            \<lparr>total_quantity = Some (1 :: rat), total_profit_loss = Some 3, return_pct = Some 150\<rparr>)]
       \<inter> set [''XYZ'', ''PLTR 02/16/24 C 30''] = {}"
proof -
  have h: "set (buy_tickers mixed_table) \<inter> set (bto_keys mixed_table) = {}"
    by (simp add: mixed_table_def eval_rec parse_PLTR parse_PLTR_feb)
  from keys_exclusive[OF mixed_result h] h mixed_result show ?thesis by blast
qed









section \<open>The cleaning of the currency texts\<close>

















section \<open>Null values\<close>



lemma dropna_append: "dropna (xs @ ys) = dropna xs @ dropna ys"
  by (simp add: dropna_def)









end
